(* ===== verification/Prelude.thy ===== *)
theory Prelude
  imports Main "HOL-Library.Word" "HOL-Library.Multiset"
begin

text \<open>
  Shared vocabulary of the development: the collections of facts the component theories add to,
  the result type of fallible Go code, chunking of slices, and the few generic facts about lists,
  multisets and 64-bit counters that more than one component needs.

  A Go byte is a HOL \<^typ>\<open>char\<close> (both are exactly eight bits), so a Go \<^verbatim>\<open>string\<close>
  and a Go \<^verbatim>\<open>[]byte\<close> are both a \<^typ>\<open>string\<close>. A Go \<^verbatim>\<open>uint64\<close> is
  \<^typ>\<open>64 word\<close>. A Go \<^verbatim>\<open>int\<close> or \<^verbatim>\<open>int64\<close> is an \<^typ>\<open>int\<close>, with
  \<open>wrap64\<close> applied wherever the code computes on it and the result could leave the range.
\<close>

named_theorems result_simps \<open>inversion of sequenced fallible computations\<close>
named_theorems inv_intros \<open>one preservation fact per operation of a component\<close>

type_synonym uint64 = "64 word"
type_synonym uint32 = "32 word"

section \<open>Results of fallible code\<close>

text \<open>\<^verbatim>\<open>if err != nil { return err }\<close>: the first error ends the computation.\<close>

definition andThen :: "'e + 'a \<Rightarrow> ('a \<Rightarrow> 'e + 'b) \<Rightarrow> 'e + 'b" where
  "andThen m f = (case m of Inl e \<Rightarrow> Inl e | Inr x \<Rightarrow> f x)"

lemma andThen_simps [simp]:
  "andThen (Inl e) f = Inl e"
  "andThen (Inr x) f = f x"
  by (simp_all add: andThen_def)

lemma andThen_Inr [result_simps]:
  "andThen m f = Inr y \<longleftrightarrow> (\<exists>x. m = Inr x \<and> f x = Inr y)"
  by (cases m) auto

lemma andThen_Inl [result_simps]:
  "andThen m f = Inl e \<longleftrightarrow> m = Inl e \<or> (\<exists>x. m = Inr x \<and> f x = Inl e)"
  by (cases m) auto

lemma andThen_assoc: "andThen (andThen m f) g = andThen m (\<lambda>x. andThen (f x) g)"
  by (cases m) auto

lemma andThen_cong [fundef_cong]:
  "m = m' \<Longrightarrow> (\<And>x. m' = Inr x \<Longrightarrow> f x = f' x) \<Longrightarrow> andThen m f = andThen m' f'"
  by (cases m') auto

section \<open>Signed 64-bit arithmetic\<close>

definition wrap64 :: "int \<Rightarrow> int" where
  "wrap64 x = (x + 2 ^ 63) mod 2 ^ 64 - 2 ^ 63"

lemma wrap64_id [simp]: "- (2 ^ 63) \<le> x \<Longrightarrow> x < 2 ^ 63 \<Longrightarrow> wrap64 x = x"
  by (simp add: wrap64_def mod_pos_pos_trivial)

lemma wrap64_range: "- (2 ^ 63) \<le> wrap64 x \<and> wrap64 x < 2 ^ 63"
  using pos_mod_bound [of "2 ^ 64" "x + 2 ^ 63"] pos_mod_sign [of "2 ^ 64" "x + 2 ^ 63"]
  by (simp add: wrap64_def)

section \<open>Cutting a slice into bounded pieces\<close>

text \<open>
  The loop \<^verbatim>\<open>for start := 0; start < len(xs); start += n\<close> over the subslices
  \<^verbatim>\<open>xs[start:min(start+n, len(xs))]\<close>.
\<close>

function chunks :: "nat \<Rightarrow> 'a list \<Rightarrow> 'a list list" where
  "chunks n xs = (if xs = [] \<or> n = 0 then [] else take n xs # chunks n (drop n xs))"
  by pat_completeness auto
termination
  by (relation "measure (\<lambda>(n, xs). length xs)") auto

declare chunks.simps [simp del]

lemma chunks_Nil [simp]: "chunks n [] = []"
  by (simp add: chunks.simps)

lemma chunks_step: "xs \<noteq> [] \<Longrightarrow> 0 < n \<Longrightarrow> chunks n xs = take n xs # chunks n (drop n xs)"
  by (subst chunks.simps) simp

lemma concat_chunks: "0 < n \<Longrightarrow> concat (chunks n xs) = xs"
proof (induction n xs rule: chunks.induct)
  case (1 n xs)
  show ?case
  proof (cases "xs = []")
    case False
    with 1 show ?thesis by (simp add: chunks_step)
  qed simp
qed

lemma chunks_bounds: "c \<in> set (chunks n xs) \<Longrightarrow> c \<noteq> [] \<and> length c \<le> n"
proof (induction n xs rule: chunks.induct)
  case (1 n xs)
  then show ?case
    by (subst (asm) (2) chunks.simps) (auto split: if_splits)
qed

section \<open>Multisets of queued items\<close>

lemma mset_concat_append: "mset (concat (xss @ yss)) = mset (concat xss) + mset (concat yss)"
  by simp

lemma sum_list_length_concat: "sum_list (map length xss) = length (concat xss)"
  by (simp add: length_concat)

section \<open>Unsigned counters\<close>

lemma of_nat_word_eq:
  fixes x :: uint64
  assumes "x = of_nat n" "n < 2 ^ 64"
  shows "unat x = n"
  using assms by (simp add: unat_of_nat take_bit_nat_eq_self)

lemma unat_uint64_less: "unat (w :: uint64) < 2 ^ 64"
  using unsigned_less [of w] by simp

lemma uint_unat: "uint (w :: uint64) = int (unat w)"
  by simp

lemma sint_uint64_small:
  assumes "unat (w :: uint64) < 2 ^ 63"
  shows "sint w = int (unat w)"
proof -
  have "uint w < 2 ^ 63" using assms by (metis uint_unat of_nat_less_iff of_nat_numeral of_nat_power)
  moreover have "- (2 ^ 63) \<le> uint w" using unsigned_greater_eq [of w] by (rule order.trans [rotated]) simp
  ultimately show ?thesis by (simp add: sint_uint signed_take_bit_int_eq_self)
qed

lemma uint64_of_nat_inject:
  "m < 2 ^ 64 \<Longrightarrow> n < 2 ^ 64 \<Longrightarrow> (of_nat m :: uint64) = of_nat n \<longleftrightarrow> m = n"
  by (metis of_nat_word_eq)

end
