(* ===== verification/GoLib.thy ===== *)
theory GoLib
  imports Prelude
begin

text \<open>
  The functions of the Go standard library packages \<^verbatim>\<open>strings\<close>, \<^verbatim>\<open>strconv\<close> and
  \<^verbatim>\<open>hash/fnv\<close> that the program calls, with the laws the components use. Separators are
  single bytes wherever the program passes a one-byte separator.
\<close>

section \<open>strings\<close>

definition HasPrefix :: "string \<Rightarrow> string \<Rightarrow> bool" where
  "HasPrefix s p \<longleftrightarrow> take (length p) s = p"

definition CutPrefix :: "string \<Rightarrow> string \<Rightarrow> string option" where
  "CutPrefix s p = (if HasPrefix s p then Some (drop (length p) s) else None)"

fun Cut :: "string \<Rightarrow> char \<Rightarrow> (string \<times> string) option" where
  "Cut [] c = None"
| "Cut (x # s) c =
     (if x = c then Some ([], s) else map_option (\<lambda>(a, b). (x # a, b)) (Cut s c))"

fun SplitN :: "string \<Rightarrow> char \<Rightarrow> nat \<Rightarrow> string list" where
  "SplitN s c 0 = []"
| "SplitN s c (Suc 0) = [s]"
| "SplitN s c (Suc (Suc n)) =
     (case Cut s c of None \<Rightarrow> [s] | Some (a, b) \<Rightarrow> a # SplitN b c (Suc n))"

fun Split :: "string \<Rightarrow> char \<Rightarrow> string list" where
  "Split [] c = [[]]"
| "Split (x # s) c =
     (if x = c then [] # Split s c
      else (case Split s c of [] \<Rightarrow> [[x]] | p # ps \<Rightarrow> (x # p) # ps))"

fun ReplaceAllByte :: "string \<Rightarrow> char \<Rightarrow> string \<Rightarrow> string" where
  "ReplaceAllByte [] c r = []"
| "ReplaceAllByte (x # s) c r = (if x = c then r else [x]) @ ReplaceAllByte s c r"

text \<open>\<^verbatim>\<open>strings.Replace(s, old, new, 1)\<close>: the first occurrence only.\<close>

fun ReplaceFirst :: "string \<Rightarrow> string \<Rightarrow> string \<Rightarrow> string" where
  "ReplaceFirst [] old new = (if old = [] then new else [])"
| "ReplaceFirst (x # s) old new =
     (if HasPrefix (x # s) old then new @ drop (length old) (x # s)
      else x # ReplaceFirst s old new)"

text \<open>The UTF-8 encodings of the code points \<^verbatim>\<open>unicode.IsSpace\<close> accepts.\<close>

definition spaceSeqs :: "string list" where
  "spaceSeqs =
     [[CHR 0x09], [CHR 0x0A], [CHR 0x0B], [CHR 0x0C], [CHR 0x0D], [CHR 0x20],
      [CHR 0xC2, CHR 0x85], [CHR 0xC2, CHR 0xA0], [CHR 0xE1, CHR 0x9A, CHR 0x80],
      [CHR 0xE2, CHR 0x80, CHR 0x80], [CHR 0xE2, CHR 0x80, CHR 0x81],
      [CHR 0xE2, CHR 0x80, CHR 0x82], [CHR 0xE2, CHR 0x80, CHR 0x83],
      [CHR 0xE2, CHR 0x80, CHR 0x84], [CHR 0xE2, CHR 0x80, CHR 0x85],
      [CHR 0xE2, CHR 0x80, CHR 0x86], [CHR 0xE2, CHR 0x80, CHR 0x87],
      [CHR 0xE2, CHR 0x80, CHR 0x88], [CHR 0xE2, CHR 0x80, CHR 0x89],
      [CHR 0xE2, CHR 0x80, CHR 0x8A], [CHR 0xE2, CHR 0x80, CHR 0xA8],
      [CHR 0xE2, CHR 0x80, CHR 0xA9], [CHR 0xE2, CHR 0x80, CHR 0xAF],
      [CHR 0xE2, CHR 0x81, CHR 0x9F], [CHR 0xE3, CHR 0x80, CHR 0x80]]"

function trimLeftBy :: "string list \<Rightarrow> string \<Rightarrow> string" where
  "trimLeftBy seqs s =
     (case List.find (\<lambda>p. p \<noteq> [] \<and> HasPrefix s p) seqs of
        None \<Rightarrow> s
      | Some p \<Rightarrow> trimLeftBy seqs (drop (length p) s))"
  by pat_completeness auto
termination
proof (relation "measure (\<lambda>(seqs, s). length s)")
  fix seqs :: "string list" and s p :: string
  assume "List.find (\<lambda>p. p \<noteq> [] \<and> HasPrefix s p) seqs = Some p"
  then have "p \<noteq> []" "take (length p) s = p"
    by (auto simp: find_Some_iff HasPrefix_def)
  then have "length s > 0" "length p > 0"
    by (cases s; auto)+
  then show "((seqs, drop (length p) s), (seqs, s)) \<in> measure (\<lambda>(seqs, s). length s)"
    by simp
qed simp

declare trimLeftBy.simps [simp del]

definition TrimSpace :: "string \<Rightarrow> string" where
  "TrimSpace s = rev (trimLeftBy (map rev spaceSeqs) (rev (trimLeftBy spaceSeqs s)))"

subsection \<open>Laws\<close>

lemma HasPrefix_append [simp]: "HasPrefix (p @ s) p"
  by (simp add: HasPrefix_def)

lemma HasPrefix_iff: "HasPrefix s p \<longleftrightarrow> (\<exists>t. s = p @ t)"
  by (metis HasPrefix_append HasPrefix_def append_take_drop_id)

lemma CutPrefix_append [simp]: "CutPrefix (p @ s) p = Some s"
  by (simp add: CutPrefix_def)

lemma Cut_Some_iff: "Cut s c = Some (a, b) \<longleftrightarrow> s = a @ c # b \<and> c \<notin> set a"
proof (induction s arbitrary: a b)
  case (Cons x s)
  show ?case
  proof (cases a)
    case Nil
    then show ?thesis by (auto simp: Cons)
  next
    case (Cons y a')
    then show ?thesis using Cons.IH by (auto split: prod.splits)
  qed
qed simp

lemma Cut_None_iff: "Cut s c = None \<longleftrightarrow> c \<notin> set s"
  by (induction s) auto

lemma Cut_append [simp]: "c \<notin> set a \<Longrightarrow> Cut (a @ c # b) c = Some (a, b)"
  by (simp add: Cut_Some_iff)

lemma SplitN2_cases:
  "SplitN s c 2 = (case Cut s c of None \<Rightarrow> [s] | Some (a, b) \<Rightarrow> [a, b])"
  by (simp add: numeral_2_eq_2 split: option.splits)

lemma SplitN3_append [simp]:
  "c \<notin> set a \<Longrightarrow> c \<notin> set b \<Longrightarrow> SplitN (a @ c # b @ c # r) c 3 = [a, b, r]"
  by (simp add: numeral_3_eq_3)

lemma Split_not_Nil [simp]: "Split s c \<noteq> []"
  by (induction s) (auto split: list.splits)

lemma Split_no_sep: "p \<in> set (Split s c) \<Longrightarrow> c \<notin> set p"
proof (induction s arbitrary: p)
  case (Cons x s)
  then show ?case by (cases "Split s c") (auto split: if_splits)
qed simp

lemma Split_join: "c \<notin> set a \<Longrightarrow> Split (a @ c # b) c = a # Split b c"
  by (induction a) auto

lemma Split_single: "c \<notin> set a \<Longrightarrow> Split a c = [a]"
  by (induction a) auto

lemma ReplaceAllByte_append [simp]:
  "ReplaceAllByte (a @ b) c r = ReplaceAllByte a c r @ ReplaceAllByte b c r"
  by (induction a) auto

lemma trimLeftBy_id:
  "(\<And>p. p \<in> set seqs \<Longrightarrow> p \<noteq> [] \<Longrightarrow> \<not> HasPrefix s p) \<Longrightarrow> trimLeftBy seqs s = s"
  by (subst trimLeftBy.simps) (auto simp: find_None_iff split: option.splits dest: find_Some_iff [THEN iffD1])

section \<open>strconv\<close>

definition isDigit :: "char \<Rightarrow> bool" where
  "isDigit c \<longleftrightarrow> 48 \<le> (of_char c :: nat) \<and> (of_char c :: nat) \<le> 57"

definition digitChar :: "nat \<Rightarrow> char" where
  "digitChar d = char_of (48 + d)"

fun FormatUint :: "nat \<Rightarrow> string" where
  "FormatUint n = (if n < 10 then [digitChar n] else FormatUint (n div 10) @ [digitChar (n mod 10)])"

declare FormatUint.simps [simp del]

definition FormatInt :: "int \<Rightarrow> string" where
  "FormatInt i = (if i < 0 then CHR ''-'' # FormatUint (nat (- i)) else FormatUint (nat i))"

definition digitsVal :: "string \<Rightarrow> nat" where
  "digitsVal s = foldl (\<lambda>a c. a * 10 + (of_char c - 48)) 0 s"

text \<open>\<^verbatim>\<open>strconv.ParseUint(s, 10, bits)\<close>; every error is \<^const>\<open>None\<close>.\<close>

definition ParseUint :: "string \<Rightarrow> nat \<Rightarrow> nat option" where
  "ParseUint s bits =
     (if s \<noteq> [] \<and> list_all isDigit s \<and> digitsVal s < 2 ^ bits then Some (digitsVal s) else None)"

text \<open>
  \<^verbatim>\<open>strconv.ParseInt(s, 10, 64)\<close>, which \<^verbatim>\<open>strconv.Atoi\<close> is on a 64-bit platform: an
  optional sign, at least one digit, and a value of the signed range.
\<close>

definition ParseInt :: "string \<Rightarrow> int option" where
  "ParseInt s =
     (let neg = (case s of c # _ \<Rightarrow> c = CHR ''-'' | [] \<Rightarrow> False);
          digits = (case s of c # r \<Rightarrow> (if c = CHR ''-'' \<or> c = CHR ''+'' then r else s) | [] \<Rightarrow> [])
      in if digits = [] \<or> \<not> list_all isDigit digits then None
         else if neg then (if digitsVal digits \<le> 2 ^ 63 then Some (- int (digitsVal digits)) else None)
         else (if digitsVal digits < 2 ^ 63 then Some (int (digitsVal digits)) else None))"

subsection \<open>Laws\<close>

lemma of_char_digitChar [simp]: "d < 10 \<Longrightarrow> of_char (digitChar d) = 48 + d"
  by (simp add: digitChar_def)

lemma char_of_nat_eq: "of_char c = n \<Longrightarrow> char_of n = c"
  by auto

text \<open>The digits as literals, for evaluation.\<close>

lemma digitChar_lits [simp]:
  "digitChar 0 = CHR ''0''" "digitChar (Suc 0) = CHR ''1''" "digitChar 1 = CHR ''1''"
  "digitChar 2 = CHR ''2''" "digitChar 3 = CHR ''3''" "digitChar 4 = CHR ''4''"
  "digitChar 5 = CHR ''5''" "digitChar 6 = CHR ''6''" "digitChar 7 = CHR ''7''"
  "digitChar 8 = CHR ''8''" "digitChar 9 = CHR ''9''"
  unfolding digitChar_def by (rule char_of_nat_eq, simp)+

lemma isDigit_digitChar [simp]: "d < 10 \<Longrightarrow> isDigit (digitChar d)"
  by (simp add: isDigit_def)

lemma isDigit_not_sign [simp]: "\<not> isDigit CHR ''-''" "\<not> isDigit CHR ''+''"
  by (simp_all add: isDigit_def)

lemma FormatUint_not_Nil [simp]: "FormatUint n \<noteq> []"
  by (subst FormatUint.simps) simp

lemma FormatUint_digits [simp]: "list_all isDigit (FormatUint n)"
proof (induction n rule: FormatUint.induct)
  case (1 n)
  then show ?case by (subst FormatUint.simps) simp
qed

lemma digitsVal_snoc: "digitsVal (s @ [c]) = digitsVal s * 10 + (of_char c - 48)"
  by (simp add: digitsVal_def)

lemma digitsVal_FormatUint [simp]: "digitsVal (FormatUint n) = n"
proof (induction n rule: FormatUint.induct)
  case (1 n)
  show ?case
  proof (cases "n < 10")
    case True
    then show ?thesis by (subst FormatUint.simps) (simp add: digitsVal_def)
  next
    case False
    with 1 have "digitsVal (FormatUint (n div 10)) = n div 10" by simp
    with False show ?thesis
      by (subst FormatUint.simps) (simp add: digitsVal_snoc)
  qed
qed

lemma ParseUint_FormatUint: "n < 2 ^ bits \<Longrightarrow> ParseUint (FormatUint n) bits = Some n"
  by (simp add: ParseUint_def)

lemma FormatUint_no_sign:
  "(case FormatUint n of c # _ \<Rightarrow> c = CHR ''-'' | [] \<Rightarrow> False) = False"
  "(case FormatUint n of c # r \<Rightarrow> (if c = CHR ''-'' \<or> c = CHR ''+'' then r else FormatUint n) | [] \<Rightarrow> [])
     = FormatUint n"
  using FormatUint_digits [of n]
  by (cases "FormatUint n"; auto simp del: FormatUint_digits)+

lemma ParseInt_FormatInt:
  "- (2 ^ 63) \<le> i \<Longrightarrow> i < 2 ^ 63 \<Longrightarrow> ParseInt (FormatInt i) = Some i"
  by (auto simp: ParseInt_def FormatInt_def Let_def FormatUint_no_sign nat_le_iff nat_less_iff)

lemma ParseInt_range: "ParseInt s = Some i \<Longrightarrow> - (2 ^ 63) \<le> i \<and> i < 2 ^ 63"
proof -
  assume "ParseInt s = Some i"
  then obtain d where "(i = - int d \<and> d \<le> 2 ^ 63) \<or> (i = int d \<and> d < 2 ^ 63)"
    unfolding ParseInt_def Let_def by (auto split: if_splits)
  then show ?thesis by auto
qed

section \<open>strings.Contains\<close>

fun Contains :: "string \<Rightarrow> string \<Rightarrow> bool" where
  "Contains s sub \<longleftrightarrow> HasPrefix s sub \<or> (case s of [] \<Rightarrow> False | _ # t \<Rightarrow> Contains t sub)"

declare Contains.simps [simp del]

section \<open>hash/fnv\<close>

definition Fnv32a :: "string \<Rightarrow> uint32" where
  "Fnv32a s = foldl (\<lambda>h c. (xor h (of_nat (of_char c))) * 16777619) 2166136261 s"

end
