(* ===== verification/Shard.thy ===== *)
theory Shard
  imports GoLib
begin

text \<open>
  Command-line specifications of \<^verbatim>\<open>main.go\<close> (\<^verbatim>\<open>parseShard\<close>, \<^verbatim>\<open>parseValsNodes\<close>) and the
  shard test of \<^verbatim>\<open>ingest/ingest.go\<close> (\<^verbatim>\<open>inShard\<close>). The lemmas show that an accepted shard
  specification is in range and is what was written, and that the shards \<open>0 .. K-1\<close> partition
  the repositories by the FNV-1a hash of their DID.
\<close>

section \<open>parseShard\<close>

datatype shard_error =
    ExpectedNK string
  | BadShardIndex string
  | BadShardCount string
  | RequireRange int int

definition parseShard :: "string \<Rightarrow> shard_error + int \<times> int" where
  "parseShard s =
     (if s = [] then Inr (0, 1)
      else case Cut s CHR ''/'' of
        None \<Rightarrow> Inl (ExpectedNK s)
      | Some (nStr, kStr) \<Rightarrow>
          (case ParseInt (TrimSpace nStr) of
             None \<Rightarrow> Inl (BadShardIndex nStr)
           | Some n \<Rightarrow>
               (case ParseInt (TrimSpace kStr) of
                  None \<Rightarrow> Inl (BadShardCount kStr)
                | Some k \<Rightarrow>
                    if k < 1 \<or> n < 0 \<or> n \<ge> k then Inl (RequireRange n k) else Inr (n, k))))"

section \<open>inShard\<close>

datatype go_panic = IntegerDivideByZero

text \<open>
  \<^verbatim>\<open>uint32(i.shardK)\<close> keeps the low 32 bits, and \<^verbatim>\<open>%\<close> by zero is a run-time panic.
\<close>

definition inShard :: "int \<Rightarrow> int \<Rightarrow> string \<Rightarrow> go_panic + bool" where
  "inShard shardN shardK did =
     (if shardK \<le> 1 then Inr True
      else let m = (word_of_int shardK :: uint32)
           in if m = 0 then Inl IntegerDivideByZero
              else Inr (int (unat (Fnv32a did mod m)) = shardN))"

section \<open>parseValsNodes\<close>

datatype nodes_error = ExpectedIdAddr string | BadNodeId string

fun addValsNodes :: "(uint32 \<rightharpoonup> string) \<Rightarrow> string list \<Rightarrow> nodes_error + (uint32 \<rightharpoonup> string)" where
  "addValsNodes nodes [] = Inr nodes"
| "addValsNodes nodes (part # parts) =
     (case Cut part CHR ''@'' of
        None \<Rightarrow> Inl (ExpectedIdAddr part)
      | Some (nid, addr) \<Rightarrow>
          (case ParseUint nid 32 of
             None \<Rightarrow> Inl (BadNodeId nid)
           | Some n \<Rightarrow> addValsNodes (nodes(of_nat n \<mapsto> addr)) parts))"

definition parseValsNodes :: "string \<Rightarrow> nodes_error + (uint32 \<rightharpoonup> string)" where
  "parseValsNodes list = addValsNodes Map.empty (Split list CHR '','')"

section \<open>Lemmas\<close>

lemma spaceSeqs_first: "p \<in> set spaceSeqs \<Longrightarrow> HasPrefix (c # s) p \<Longrightarrow> \<not> isDigit c \<and> c \<noteq> CHR ''-''"
  by (auto simp: spaceSeqs_def HasPrefix_def isDigit_def)

lemma spaceSeqs_last:
  "p \<in> set (map rev spaceSeqs) \<Longrightarrow> HasPrefix (c # s) p \<Longrightarrow> \<not> isDigit c \<and> c \<noteq> CHR ''-''"
  by (auto simp: spaceSeqs_def HasPrefix_def isDigit_def)

lemma trimLeftBy_number:
  assumes "s = [] \<or> isDigit (hd s) \<or> hd s = CHR ''-''"
  shows "trimLeftBy spaceSeqs s = s" "trimLeftBy (map rev spaceSeqs) s = s"
proof -
  have A: "\<not> HasPrefix s p" if "p \<noteq> []" "p \<in> set spaceSeqs" for p
    using spaceSeqs_first [OF that(2), of "hd s" "tl s"] assms that(1)
    by (cases s) (auto simp: HasPrefix_def)
  have B: "\<not> HasPrefix s p" if "p \<noteq> []" "p \<in> set (map rev spaceSeqs)" for p
    using spaceSeqs_last [OF that(2), of "hd s" "tl s"] assms that(1)
    by (cases s) (auto simp: HasPrefix_def)
  show "trimLeftBy spaceSeqs s = s" by (rule trimLeftBy_id) (rule A)
  show "trimLeftBy (map rev spaceSeqs) s = s" by (rule trimLeftBy_id) (rule B)
qed

lemma FormatInt_chars:
  "c \<in> set (FormatInt i) \<Longrightarrow> isDigit c \<or> c = CHR ''-''"
  using FormatUint_digits by (auto simp: FormatInt_def list_all_iff split: if_splits)

lemma FormatInt_not_Nil [simp]: "FormatInt i \<noteq> []"
  by (simp add: FormatInt_def)

lemma TrimSpace_FormatInt [simp]: "TrimSpace (FormatInt i) = FormatInt i"
proof -
  have "isDigit (hd (FormatInt i)) \<or> hd (FormatInt i) = CHR ''-''"
    using FormatInt_chars hd_in_set [OF FormatInt_not_Nil] by blast
  moreover have "isDigit (hd (rev (FormatInt i))) \<or> hd (rev (FormatInt i)) = CHR ''-''"
    using FormatInt_chars hd_in_set [of "rev (FormatInt i)"] by fastforce
  ultimately show ?thesis
    by (simp add: TrimSpace_def trimLeftBy_number)
qed

lemma slash_not_in_FormatInt [simp]: "CHR ''/'' \<notin> set (FormatInt i)"
  using FormatInt_chars [of "CHR ''/''" i] by (auto simp: isDigit_def)

lemma unat_mod_uint32:
  fixes h m :: uint32
  shows "unat (h mod m) = unat h mod unat m"
  by (simp add: unat_mod)

lemma unat_word_of_int_uint32:
  "0 \<le> k \<Longrightarrow> k < 2 ^ 32 \<Longrightarrow> unat (word_of_int k :: uint32) = nat k"
  by (simp add: unat_eq_nat_uint uint_word_of_int take_bit_int_eq_self_iff)

lemma inShard_iff:
  assumes "1 < K" "K < 2 ^ 32"
  shows "inShard n K did = Inr (int (unat (Fnv32a did) mod nat K) = n)"
proof -
  have u: "unat (word_of_int K :: uint32) = nat K"
    using assms by (intro unat_word_of_int_uint32) auto
  then have "(word_of_int K :: uint32) \<noteq> 0"
    using assms by (metis nat_0_iff not_less unat_0 zero_less_one order.strict_trans less_imp_le)
  with u show ?thesis
    using assms by (simp add: inShard_def Let_def unat_mod_uint32)
qed

lemma inShard_exactly_one:
  assumes "1 \<le> K" "K < 2 ^ 32"
  shows "\<exists>!n. 0 \<le> n \<and> n < K \<and> inShard n K did = Inr True"
proof (cases "K = 1")
  case True
  then show ?thesis by (intro ex1I [of _ 0]) (auto simp: inShard_def)
next
  case False
  with assms have K: "1 < K" by simp
  let ?n = "int (unat (Fnv32a did) mod nat K)"
  have "0 \<le> ?n \<and> ?n < K"
    using K by (simp add: zmod_int)
  then show ?thesis
    by (intro ex1I [of _ ?n]) (auto simp: inShard_iff [OF K assms(2)])
qed

lemma inShard_total: "1 \<le> K \<Longrightarrow> K < 2 ^ 32 \<Longrightarrow> \<exists>b. inShard n K did = Inr b"
  by (cases "K = 1") (auto simp: inShard_def Let_def word_of_int_eq_0_iff take_bit_int_eq_self)

section \<open>Properties\<close>

text \<open>A shard specification that is accepted satisfies \<open>0 \<le> n < K\<close>, with both numbers in the
  range of a Go \<^verbatim>\<open>int\<close>; the empty specification is shard 0 of 1.\<close>

theorem parseShard_in_range:
  assumes "parseShard s = Inr (n, k)"
  shows "0 \<le> n \<and> n < k \<and> k < 2 ^ 63"
  using assms ParseInt_range
  by (fastforce simp: parseShard_def split: if_splits option.splits prod.splits)

theorem parseShard_in_range_witness: "0 \<le> (2::int) \<and> (2::int) < 5 \<and> (5::int) < 2 ^ 63"
proof -
  have "parseShard (FormatInt 2 @ ''/'' @ FormatInt 5) = Inr (2, 5)"
    by (simp add: parseShard_def ParseInt_FormatInt)
  from parseShard_in_range [OF this] show ?thesis .
qed

text \<open>Every shard \<open>n/K\<close> with \<open>0 \<le> n < K\<close> can be requested: parsing what
  \<^verbatim>\<open>n/K\<close> prints to gives back exactly \<open>n\<close> and \<open>K\<close>.\<close>

theorem parseShard_roundtrip:
  assumes "0 \<le> n" "n < k" "k < 2 ^ 63"
  shows "parseShard (FormatInt n @ ''/'' @ FormatInt k) = Inr (n, k)"
  using assms by (simp add: parseShard_def ParseInt_FormatInt)

theorem parseShard_roundtrip_witness:
  "parseShard (FormatInt 3 @ ''/'' @ FormatInt 16) = Inr (3, 16)"
  by (rule parseShard_roundtrip) simp_all

text \<open>For a shard count below \<open>2^32\<close> the shards partition the network: every DID is in exactly
  one of the shards \<open>0 .. K-1\<close>, and no instance fails on it.\<close>

theorem inShard_partition:
  assumes "1 \<le> K" "K < 2 ^ 32"
  shows "\<exists>!n. 0 \<le> n \<and> n < K \<and> inShard n K did = Inr True"
  using assms by (rule inShard_exactly_one)

theorem inShard_partition_witness:
  "\<exists>!n. 0 \<le> n \<and> n < (4::int) \<and> inShard n 4 ''did:plc:a'' = Inr True"
  by (rule inShard_partition) simp_all

text \<open>C37. Every shard count that is a positive multiple of \<open>2^32\<close> in the range of an \<^verbatim>\<open>int\<close> passes the
  checks of \<^verbatim>\<open>parseShard\<close>, with every index below it, and then divides by zero on the first
  repository, whatever its DID: \<^verbatim>\<open>--shard 0/4294967296\<close> panics.\<close>

theorem parseShard_accepts_panic:
  assumes "1 \<le> m" "m * 2 ^ 32 < 2 ^ 63" "0 \<le> n" "n < m * 2 ^ 32"
  shows "parseShard (FormatInt n @ ''/'' @ FormatInt (m * 2 ^ 32)) = Inr (n, m * 2 ^ 32)
   \<and> inShard n (m * 2 ^ 32) did = Inl IntegerDivideByZero"
proof
  show "parseShard (FormatInt n @ ''/'' @ FormatInt (m * 2 ^ 32)) = Inr (n, m * 2 ^ 32)"
    using assms by (simp add: parseShard_def ParseInt_FormatInt)
  have "(word_of_int (m * 2 ^ 32) :: uint32) = 0"
    unfolding word_of_int_eq_0_iff take_bit_eq_mod by simp
  moreover have "\<not> m * 2 ^ 32 \<le> 1" using assms(1) by simp
  ultimately show "inShard n (m * 2 ^ 32) did = Inl IntegerDivideByZero"
    by (simp only: inShard_def Let_def) simp
qed

theorem parseShard_accepts_panic_witness:
  "parseShard (FormatInt 5 @ ''/'' @ FormatInt (3 * 2 ^ 32)) = Inr (5, 3 * 2 ^ 32)
   \<and> inShard 5 (3 * 2 ^ 32) ''did:plc:a'' = Inl IntegerDivideByZero"
  by (rule parseShard_accepts_panic) simp_all

definition printNode :: "nat \<times> string \<Rightarrow> string" where
  "printNode p = FormatUint (fst p) @ ''@'' @ snd p"

fun printNodes :: "(nat \<times> string) list \<Rightarrow> string" where
  "printNodes [] = []"
| "printNodes [p] = printNode p"
| "printNodes (p # q # ps) = printNode p @ '','' @ printNodes (q # ps)"

lemma FormatUint_sep:
  "CHR ''@'' \<notin> set (FormatUint n)" "CHR '','' \<notin> set (FormatUint n)"
  using FormatUint_digits [of n] by (auto simp: list_all_iff isDigit_def simp del: FormatUint_digits)

lemma Split_printNodes:
  "ps \<noteq> [] \<Longrightarrow> \<forall>p \<in> set ps. CHR '','' \<notin> set (snd p)
   \<Longrightarrow> Split (printNodes ps) CHR '','' = map printNode ps"
proof (induction ps rule: printNodes.induct)
  case (2 p)
  then show ?case by (simp add: printNode_def FormatUint_sep Split_single)
next
  case (3 p q ps)
  have "CHR '','' \<notin> set (printNode p)"
    using 3(3) by (simp add: printNode_def FormatUint_sep)
  with 3 show ?case by (simp add: Split_join)
qed simp

lemma addValsNodes_print:
  "\<forall>p \<in> set ps. fst p < 2 ^ 32
   \<Longrightarrow> addValsNodes m (map printNode ps) = Inr (m ++ map_of (rev (map (map_prod of_nat id) ps)))"
proof (induction ps arbitrary: m)
  case (Cons p ps)
  have "Cut (printNode p) CHR ''@'' = Some (FormatUint (fst p), snd p)"
    by (simp add: printNode_def FormatUint_sep)
  with Cons show ?case
    by (cases p) (simp add: ParseUint_FormatUint map_add_upds map_add_assoc [symmetric])
qed simp

text \<open>A printed node list parses back to its node map; when an id occurs twice the last
  address wins. An address may itself contain \<^verbatim>\<open>@\<close>.\<close>

theorem parseValsNodes_roundtrip:
  assumes "ps \<noteq> []" "\<forall>p \<in> set ps. fst p < 2 ^ 32 \<and> CHR '','' \<notin> set (snd p)"
  shows "parseValsNodes (printNodes ps) = Inr (map_of (rev (map (map_prod of_nat id) ps)))"
  using assms by (simp add: parseValsNodes_def Split_printNodes addValsNodes_print)

theorem parseValsNodes_roundtrip_witness:
  "parseValsNodes (printNodes [(1, ''a:1''), (2, ''b:2'')]) = Inr [1 \<mapsto> ''a:1'', 2 \<mapsto> ''b:2'']"
  using parseValsNodes_roundtrip [of "[(1, ''a:1''), (2, ''b:2'')]"] by simp

end
