(* ===== verification/GoFloat.thy ===== *)
theory GoFloat
  imports GoLib Complex_Main
begin

text \<open>
  The part of Go's \<^verbatim>\<open>float64\<close> the program uses. A finite value is its sign and the exact
  rational magnitude; an arithmetic result is the exact one rounded by \<open>fl\<close> (IEEE 754 round to
  nearest, ties to even, 53 bits, gradual underflow). \<open>FormatFloat\<close> is
  \<^verbatim>\<open>strconv.FormatFloat(f, 'f', -1, 64)\<close>: the shortest decimal that rounds back to the value.
\<close>

section \<open>Rounding\<close>

fun bitLen :: "nat \<Rightarrow> nat" where
  "bitLen n = (if n = 0 then 0 else Suc (bitLen (n div 2)))"

declare bitLen.simps [simp del]

definition flog2 :: "rat \<Rightarrow> int" where
  "flog2 r =
     (let (p, q) = quotient_of r; k = int (bitLen (nat p)) - int (bitLen (nat q))
      in if 2 powi k \<le> r then k else k - 1)"

definition roundEven :: "rat \<Rightarrow> int" where
  "roundEven x =
     (let f = floor x; d = x - of_int f
      in if d < 1 / 2 then f else if 1 / 2 < d then f + 1 else if even f then f else f + 1)"

definition fl :: "rat \<Rightarrow> rat" where
  "fl r =
     (if r \<le> 0 then 0
      else let e = max (flog2 r - 52) (- 1074)
           in of_int (roundEven (r / 2 powi e)) * 2 powi e)"

text \<open>Conversion to an integer truncates; the program converts non-negative values only.\<close>

definition floatToInt :: "rat \<Rightarrow> int" where
  "floatToInt r = (if 0 \<le> r then floor r else - floor (- r))"

subsection \<open>Laws\<close>

lemma bitLen_bounds: "0 < n \<Longrightarrow> 2 ^ (bitLen n - 1) \<le> n \<and> n < 2 ^ bitLen n \<and> 0 < bitLen n"
proof (induction n rule: bitLen.induct)
  case (1 n)
  show ?case
  proof (cases "n div 2 = 0")
    case True
    with 1(2) have "n = 1" by simp
    then show ?thesis by (simp add: bitLen.simps)
  next
    case False
    with 1 have IH: "2 ^ (bitLen (n div 2) - 1) \<le> n div 2" "n div 2 < 2 ^ bitLen (n div 2)"
      "0 < bitLen (n div 2)" by auto
    then obtain m where m: "bitLen (n div 2) = Suc m" by (cases "bitLen (n div 2)") auto
    have "bitLen n = Suc (Suc m)" using 1(2) m by (subst bitLen.simps) simp
    moreover have "2 * 2 ^ m \<le> n \<and> n < 4 * 2 ^ m" using IH m by auto
    ultimately show ?thesis by simp
  qed
qed

lemma pow2_le_of_int:
  assumes "2 ^ k \<le> nat p" "0 < p"
  shows "(2::rat) ^ k \<le> of_int p"
proof -
  have "of_nat (2 ^ k) \<le> (of_nat (nat p) :: rat)" using assms(1) by (simp only: of_nat_le_iff)
  with assms(2) show ?thesis by simp
qed

lemma of_int_less_pow2:
  assumes "nat p < 2 ^ k" "0 < p"
  shows "of_int p < (2::rat) ^ k"
proof -
  have "(of_nat (nat p) :: rat) < of_nat (2 ^ k)" using assms(1) by (simp only: of_nat_less_iff)
  with assms(2) show ?thesis by simp
qed

lemma powi_int_diff: "(2::rat) powi (int a - int b) = 2 ^ a / 2 ^ b"
  by (simp add: power_int_diff)

lemma flog2_bounds:
  assumes "0 < r"
  shows "2 powi (flog2 r) \<le> r" "r < 2 powi (flog2 r + 1)"
proof -
  obtain p q where pq: "quotient_of r = (p, q)" by force
  then have q: "0 < q" and r: "r = of_int p / of_int q"
    by (simp_all add: quotient_of_denom_pos quotient_of_div)
  with assms have p: "0 < p" by (simp add: zero_less_divide_iff)
  let ?a = "bitLen (nat p)" and ?b = "bitLen (nat q)"
  let ?k = "int ?a - int ?b"
  have A: "2 ^ (?a - 1) \<le> nat p" "nat p < 2 ^ ?a" "0 < ?a" using bitLen_bounds [of "nat p"] p by auto
  have B: "2 ^ (?b - 1) \<le> nat q" "nat q < 2 ^ ?b" "0 < ?b" using bitLen_bounds [of "nat q"] q by auto
  have P: "(2::rat) ^ (?a - 1) \<le> of_int p" "of_int p < (2::rat) ^ ?a"
    using A p by (simp_all add: pow2_le_of_int of_int_less_pow2)
  have Q: "(2::rat) ^ (?b - 1) \<le> of_int q" "of_int q < (2::rat) ^ ?b"
    using B q by (simp_all add: pow2_le_of_int of_int_less_pow2)
  have K1: "2 powi (?k - 1) = (2::rat) ^ (?a - 1) / 2 ^ ?b"
  proof -
    have "?k - 1 = int (?a - 1) - int ?b" using A(3) by simp
    then show ?thesis by (simp only: powi_int_diff)
  qed
  have K2: "2 powi (?k + 1) = (2::rat) ^ ?a / 2 ^ (?b - 1)"
  proof -
    have "?k + 1 = int ?a - int (?b - 1)" using B(3) by simp
    then show ?thesis by (simp only: powi_int_diff)
  qed
  have "2 powi (?k - 1) \<le> r"
    unfolding K1 r by (rule frac_le) (use P Q q p in auto)
  moreover have "r < 2 powi (?k + 1)"
    unfolding K2 r by (rule frac_less) (use P Q q p in auto)
  ultimately show "2 powi (flog2 r) \<le> r" "r < 2 powi (flog2 r + 1)"
    by (auto simp: flog2_def pq Let_def)
qed

lemma roundEven_ge: "of_int n \<le> x \<Longrightarrow> n \<le> roundEven x"
  by (auto simp: roundEven_def Let_def le_floor_iff intro: add_increasing2)

lemma roundEven_le: "x \<le> of_int n \<Longrightarrow> roundEven x \<le> n"
proof -
  assume A: "x \<le> of_int n"
  have F: "floor x \<le> n" using A by (metis floor_mono floor_of_int)
  show ?thesis
  proof (cases "floor x = n")
    case True
    with A have "x = of_int (floor x)" using of_int_floor_le [of x] by simp
    then have "x - of_int (floor x) = 0" by simp
    with True show ?thesis by (simp add: roundEven_def Let_def)
  next
    case False
    with F show ?thesis by (auto simp: roundEven_def Let_def)
  qed
qed

text \<open>
  Rounding never crosses a number with at most \<open>s\<close> fractional bits, for values below
  \<open>2 ^ (53 - s)\<close>.
\<close>

lemma fl_exponent:
  assumes "0 < x" "x < 2 powi (53 - int s)" "s \<le> 1074"
  shows "max (flog2 x - 52) (- 1074) \<le> - int s"
proof -
  have "2 powi (flog2 x) < (2::rat) powi (53 - int s)"
    using flog2_bounds(1) [OF assms(1)] assms(2) by (rule order.strict_trans1)
  then have "flog2 x < 53 - int s"
    by (meson not_le one_le_numeral power_int_increasing)
  with assms(3) show ?thesis by simp
qed

lemma dyadic_scaled:
  assumes "e \<le> - int s"
  shows "\<exists>m. (of_int n / 2 ^ s :: rat) / 2 powi e = of_int m"
proof -
  obtain t where t: "- e = int s + int t"
    using assms by (metis zle_iff_zadd le_minus_iff)
  have "(of_int n / 2 ^ s :: rat) / 2 powi e = of_int n / 2 ^ s * 2 powi (- e)"
    by (simp add: power_int_minus divide_inverse)
  also have "\<dots> = of_int n * 2 ^ t"
    unfolding t by (simp add: power_int_add)
  finally show ?thesis by (intro exI [of _ "n * 2 ^ t"]) simp
qed

lemma fl_ge:
  assumes "of_int n / 2 ^ s \<le> x" "0 < x" "x < 2 powi (53 - int s)" "s \<le> 1074"
  shows "of_int n / 2 ^ s \<le> fl x"
proof -
  let ?e = "max (flog2 x - 52) (- 1074)"
  have E: "?e \<le> - int s" by (rule fl_exponent) (use assms in auto)
  obtain m where m: "(of_int n / 2 ^ s :: rat) / 2 powi ?e = of_int m"
    using dyadic_scaled [OF E] by blast
  have "of_int m \<le> x / 2 powi ?e"
    unfolding m [symmetric] using assms(1) by (intro divide_right_mono) auto
  then have "m \<le> roundEven (x / 2 powi ?e)" by (rule roundEven_ge)
  then have "of_int m * 2 powi ?e \<le> (of_int (roundEven (x / 2 powi ?e)) * 2 powi ?e :: rat)"
    by (intro mult_right_mono) auto
  moreover have "of_int m * 2 powi ?e = (of_int n / 2 ^ s :: rat)"
    unfolding m [symmetric] by simp
  ultimately show ?thesis using assms(2) by (simp add: fl_def Let_def)
qed

lemma fl_le:
  assumes "x \<le> of_int n / 2 ^ s" "0 < x" "x < 2 powi (53 - int s)" "s \<le> 1074"
  shows "fl x \<le> of_int n / 2 ^ s"
proof -
  let ?e = "max (flog2 x - 52) (- 1074)"
  have E: "?e \<le> - int s" by (rule fl_exponent) (use assms in auto)
  obtain m where m: "(of_int n / 2 ^ s :: rat) / 2 powi ?e = of_int m"
    using dyadic_scaled [OF E] by blast
  have "x / 2 powi ?e \<le> of_int m"
    unfolding m [symmetric] using assms(1) by (intro divide_right_mono) auto
  then have "roundEven (x / 2 powi ?e) \<le> m" by (rule roundEven_le)
  then have "of_int (roundEven (x / 2 powi ?e)) * 2 powi ?e \<le> (of_int m * 2 powi ?e :: rat)"
    by (intro mult_right_mono) auto
  moreover have "of_int m * 2 powi ?e = (of_int n / 2 ^ s :: rat)"
    unfolding m [symmetric] by simp
  ultimately show ?thesis using assms(2) by (simp add: fl_def Let_def)
qed

lemma fl_dyadic:
  assumes "x = of_int n / 2 ^ s" "0 < x" "x < 2 powi (53 - int s)" "s \<le> 1074"
  shows "fl x = x"
  using fl_ge [of n s x] fl_le [of x n s] assms by simp

section \<open>Values\<close>

datatype float64 = NaN | Inf bool | Finite bool rat

text \<open>\<^verbatim>\<open>math.Float64frombits\<close>, and \<^verbatim>\<open>float64(math.Float32frombits(_))\<close>, which is exact.\<close>

definition Float64frombits :: "uint64 \<Rightarrow> float64" where
  "Float64frombits w =
     (let n = unat w; sign = n div 2 ^ 63 = 1; ex = (n div 2 ^ 52) mod 2 ^ 11; frac = n mod 2 ^ 52
      in if ex = 2047 then (if frac = 0 then Inf sign else NaN)
         else if ex = 0 then Finite sign (of_nat frac * 2 powi (- 1074))
         else Finite sign (of_nat (2 ^ 52 + frac) * 2 powi (int ex - 1075)))"

definition Float32frombits :: "uint32 \<Rightarrow> float64" where
  "Float32frombits w =
     (let n = unat w; sign = n div 2 ^ 31 = 1; ex = (n div 2 ^ 23) mod 2 ^ 8; frac = n mod 2 ^ 23
      in if ex = 255 then (if frac = 0 then Inf sign else NaN)
         else if ex = 0 then Finite sign (of_nat frac * 2 powi (- 149))
         else Finite sign (of_nat (2 ^ 23 + frac) * 2 powi (int ex - 150)))"

section \<open>Shortest decimal formatting\<close>

fun negLog10 :: "nat \<Rightarrow> rat \<Rightarrow> nat" where
  "negLog10 0 r = 0"
| "negLog10 (Suc fuel) r = (if 1 \<le> r then 0 else Suc (negLog10 fuel (r * 10)))"

text \<open>The exponent \<open>k\<close> with \<open>10 ^ k \<le> r < 10 ^ (k + 1)\<close>; 400 exceeds the 324 of the smallest float.\<close>

definition flog10 :: "rat \<Rightarrow> int" where
  "flog10 r = (if 1 \<le> r then int (length (FormatUint (nat (floor r)))) - 1 else - int (negLog10 400 r))"

definition decimalAt :: "nat \<Rightarrow> int \<Rightarrow> rat \<Rightarrow> nat option" where
  "decimalAt n k r =
     (let u = 10 powi (k + 1 - int n); s = r / u; lo = nat (floor s); hi = lo + 1;
          okLo = fl (of_nat lo * u) = r; okHi = fl (of_nat hi * u) = r
      in if okLo \<and> okHi then Some (if s - of_nat lo \<le> of_nat hi - s then lo else hi)
         else if okLo then Some lo else if okHi then Some hi else None)"

fun shortestFrom :: "nat \<Rightarrow> nat \<Rightarrow> int \<Rightarrow> rat \<Rightarrow> nat \<times> int" where
  "shortestFrom 0 n k r = (nat (floor (r / 10 powi (k + 1 - int n))), k + 1 - int n)"
| "shortestFrom (Suc more) n k r =
     (case decimalAt n k r of
        Some c \<Rightarrow> (c, k + 1 - int n)
      | None \<Rightarrow> shortestFrom more (Suc n) k r)"

text \<open>Seventeen significant digits always suffice, so the search tries \<open>1 .. 17\<close>.\<close>

definition shortestDecimal :: "rat \<Rightarrow> nat \<times> int" where
  "shortestDecimal r = shortestFrom 16 1 (flog10 r) r"

definition placePoint :: "nat \<times> int \<Rightarrow> string" where
  "placePoint cx =
     (let (c, x) = cx; ds = FormatUint c
      in if 0 \<le> x then (if c = 0 then ''0'' else ds @ replicate (nat x) CHR ''0'')
         else let f = nat (- x)
              in if f < length ds
                 then take (length ds - f) ds @ ''.'' @ drop (length ds - f) ds
                 else ''0.'' @ replicate (f - length ds) CHR ''0'' @ ds)"

definition FormatFloat :: "bool \<Rightarrow> rat \<Rightarrow> string" where
  "FormatFloat sign r =
     (if sign then ''-'' else []) @ (if r = 0 then ''0'' else placePoint (shortestDecimal r))"

end
