(* ===== verification/GoTime.thy ===== *)
theory GoTime
  imports GoLib
begin

text \<open>
  Go's \<^verbatim>\<open>time.Time\<close> as far as the program observes it: an instant (seconds and nanoseconds
  since 1970) and the offset of its location at that instant. \<open>Year\<close> and \<open>Month\<close> read the
  wall clock of the location, as in Go. \<open>parseTime\<close> is \<^verbatim>\<open>time.Parse\<close> for the layouts
  \<^verbatim>\<open>RFC3339\<close> and \<^verbatim>\<open>RFC3339Nano\<close>. Durations are nanoseconds (\<^verbatim>\<open>int64\<close>).
\<close>

section \<open>Calendar\<close>

definition daysCivil :: "int \<Rightarrow> int \<Rightarrow> int \<Rightarrow> int" where
  "daysCivil y m d =
     (let y' = (if m \<le> 2 then y - 1 else y); era = y' div 400; yoe = y' - era * 400;
          mp = (if m > 2 then m - 3 else m + 9);
          doy = (153 * mp + 2) div 5 + d - 1;
          doe = yoe * 365 + yoe div 4 - yoe div 100 + doy
      in era * 146097 + doe - 719468)"

definition civilYear :: "int \<Rightarrow> int" where
  "civilYear doe = (doe - doe div 1460 + doe div 36524 - doe div 146096) div 365"

definition civilDays :: "int \<Rightarrow> int \<times> int \<times> int" where
  "civilDays days =
     (let z = days + 719468; era = z div 146097; doe = z - era * 146097;
          yoe = civilYear doe;
          doy = doe - (365 * yoe + yoe div 4 - yoe div 100);
          mp = (5 * doy + 2) div 153;
          d = doy - (153 * mp + 2) div 5 + 1;
          m = (if mp < 10 then mp + 3 else mp - 9)
      in (yoe + era * 400 + (if m \<le> 2 then 1 else 0), m, d))"

definition isLeap :: "int \<Rightarrow> bool" where
  "isLeap y \<longleftrightarrow> y mod 4 = 0 \<and> (y mod 100 \<noteq> 0 \<or> y mod 400 = 0)"

definition daysIn :: "int \<Rightarrow> int \<Rightarrow> int" where
  "daysIn m y =
     (if m = 2 then (if isLeap y then 29 else 28)
      else if m = 4 \<or> m = 6 \<or> m = 9 \<or> m = 11 then 30 else 31)"

lemma civilYear_correct:
  assumes "0 \<le> yoe" "yoe < 400" "0 \<le> doy" "doy \<le> 365" "doy = 365 \<longrightarrow> isLeap (yoe + 1)"
  shows "civilYear (yoe * 365 + yoe div 4 - yoe div 100 + doy) = yoe"
proof -
  define c where "c = yoe div 100"
  define w where "w = yoe mod 100"
  define q where "q = w div 4"
  define r where "r = w mod 4"
  have w: "yoe = 100 * c + w" "0 \<le> w" "w < 100" unfolding c_def w_def by simp_all
  have wq: "w = 4 * q + r" and r: "0 \<le> r" "r < 4" unfolding q_def r_def by simp_all
  have y: "yoe = 100 * c + 4 * q + r" using w wq by simp
  have q: "0 \<le> q" "q < 25" using w wq r by linarith+
  have c: "0 \<le> c" "c < 4" using w assms(1,2) by linarith+
  have "yoe = r + (25 * c + q) * 4" using y by simp
  then have d4: "yoe div 4 = 25 * c + q" using r by (simp only: div_mult_self1)
  have leap: "r = 3 \<and> (q = 24 \<longrightarrow> c = 3)" if "doy = 365"
  proof
    have L: "(yoe + 1) mod 4 = 0" "(yoe + 1) mod 100 \<noteq> 0 \<or> (yoe + 1) mod 400 = 0"
      using assms(5) that unfolding isLeap_def by auto
    have "yoe + 1 = (25 * c + q) * 4 + (r + 1)" using y by simp
    then have "(r + 1) mod 4 = 0" using L(1) by (metis mod_mult_self3)
    then show r3: "r = 3" using r by presburger
    show "q = 24 \<longrightarrow> c = 3"
    proof
      assume "q = 24"
      then have e: "yoe + 1 = (c + 1) * 100" using y r3 by simp
      then have "((c + 1) * 100) mod 400 = 0" using L(2) unfolding e by simp
      moreover have "c = 0 \<or> c = 1 \<or> c = 2 \<or> c = 3" using c by linarith
      ultimately show "c = 3" by auto
    qed
  qed
  let ?doe = "36524 * c + 1461 * q + 365 * r + doy"
  have doe: "yoe * 365 + yoe div 4 - yoe div 100 + doy = ?doe"
    unfolding d4 c_def [symmetric] using y by simp
  have last: "q = 24 \<and> r = 3 \<and> doy = 365 \<Longrightarrow> c = 3"
    using leap by simp
  let ?z = "1461 * q + 365 * r + doy" and ?u = "24 * c + q + 365 * r + doy"
  have D1: "?doe div 36524 - ?doe div 146096 = c"
  proof (cases "?z = 36524")
    case True
    then have "q = 24 \<and> r = 3 \<and> doy = 365" using r q assms(3,4) by linarith
    then show ?thesis using last by simp
  next
    case False
    then have z: "0 \<le> ?z" "?z < 36524" using r q assms(3,4) by linarith+
    have "(?z + c * 36524) div 36524 = c" using z by (simp add: div_pos_pos_trivial)
    then have "?doe div 36524 = c" by (simp add: algebra_simps)
    moreover have "0 \<le> ?doe" "?doe < 146096" using z c by linarith+
    then have "?doe div 146096 = 0" by (simp add: div_pos_pos_trivial)
    ultimately show ?thesis by simp
  qed
  have D2: "?doe div 1460 = 25 * c + q + ?u div 1460"
  proof -
    have "?doe = ?u + (25 * c + q) * 1460" by simp
    then show ?thesis by (metis div_mult_self1 add.commute zero_neq_numeral)
  qed
  have D3: "0 \<le> doy - ?u div 1460 \<and> doy - ?u div 1460 < 365"
  proof (cases "?u < 1460")
    case True
    then have "?u div 1460 = 0" using r q c assms(3) by (simp add: div_pos_pos_trivial)
    moreover have "doy \<noteq> 365" using True leap r q c by auto
    ultimately show ?thesis using assms(3,4) by simp
  next
    case False
    then have "?u div 1460 = 1" using r q c assms(3,4) by linarith
    with False show ?thesis using r q c assms(4) by simp
  qed
  have "?doe - ?doe div 1460 + ?doe div 36524 - ?doe div 146096
      = (doy - ?u div 1460) + yoe * 365"
    using D1 D2 y by linarith
  moreover have "((doy - ?u div 1460) + yoe * 365) div 365 = yoe"
    using D3 by (simp add: div_pos_pos_trivial)
  ultimately have "civilYear ?doe = yoe" unfolding civilYear_def by (simp only:)
  then show ?thesis by (simp only: doe)
qed

lemma monthIndex_correct:
  fixes mp d0 :: int
  assumes "0 \<le> mp" "mp < 12" "0 \<le> d0" "d0 < (153 * (mp + 1) + 2) div 5 - (153 * mp + 2) div 5"
  shows "(5 * ((153 * mp + 2) div 5 + d0) + 2) div 153 = mp"
proof -
  have "mp \<in> {0, 1, 2, 3, 4, 5, 6, 7, 8, 9, 10, 11}" using assms(1,2) by (simp, presburger)
  with assms(3,4) show ?thesis by auto
qed

lemma isLeap_shift: "isLeap (y - e * 400) = isLeap y"
proof -
  have "(y - e * 400) mod 4 = y mod 4" "(y - e * 400) mod 100 = y mod 100"
    "(y - e * 400) mod 400 = y mod 400"
    using mod_mult_self1 [of y "- e * 100" 4] mod_mult_self1 [of y "- e * 4" 100]
      mod_mult_self1 [of y "- e" 400] by (simp_all add: algebra_simps)
  then show ?thesis by (simp add: isLeap_def)
qed

text \<open>Reading the calendar back from a day number gives the date it was made from.\<close>

lemma civilDays_daysCivil:
  assumes "1 \<le> m" "m \<le> 12" "1 \<le> d" "d \<le> daysIn m y"
  shows "civilDays (daysCivil y m d) = (y, m, d)"
proof -
  define y' where "y' = (if m \<le> 2 then y - 1 else y)"
  define era where "era = y' div 400"
  define yoe where "yoe = y' - era * 400"
  define mp where "mp = (if m > 2 then m - 3 else m + 9)"
  define doy where "doy = (153 * mp + 2) div 5 + d - 1"
  define doe where "doe = yoe * 365 + yoe div 4 - yoe div 100 + doy"
  have days: "daysCivil y m d + 719468 = era * 146097 + doe"
    by (simp add: daysCivil_def Let_def y'_def era_def yoe_def mp_def doy_def doe_def)
  have yoe: "0 \<le> yoe" "yoe < 400" unfolding yoe_def era_def by presburger+
  have mp: "0 \<le> mp" "mp < 12" using assms(1,2) by (auto simp: mp_def)
  have "m \<in> {1, 2, 3, 4, 5, 6, 7, 8, 9, 10, 11, 12}" using assms(1,2) by (simp, presburger)
  then have doy: "0 \<le> doy" "doy \<le> 365" "doy = 365 \<longrightarrow> m = 2 \<and> d = 29"
    and dlt: "d - 1 < (153 * (mp + 1) + 2) div 5 - (153 * mp + 2) div 5"
    using assms(3,4)
    by (elim insertE emptyE; simp add: doy_def mp_def daysIn_def split: if_splits)+
  have leap: "doy = 365 \<longrightarrow> isLeap (yoe + 1)"
  proof
    assume "doy = 365"
    then have "m = 2" "d = 29" using doy by auto
    with assms(4) have "isLeap y" by (auto simp: daysIn_def split: if_splits)
    moreover have "yoe + 1 = y - era * 400" using \<open>m = 2\<close> by (simp add: yoe_def y'_def)
    ultimately show "isLeap (yoe + 1)" by (simp add: isLeap_shift)
  qed
  have Y: "civilYear doe = yoe"
    unfolding doe_def by (rule civilYear_correct) (use yoe doy leap in auto)
  have "doe \<le> 399 * 365 + 99 - 3 + 365"
  proof (cases "yoe = 399")
    case True
    then show ?thesis using doy(2) by (simp add: doe_def)
  next
    case False
    with yoe have "yoe \<le> 398" "yoe div 4 \<le> 99" "0 \<le> yoe div 100" by linarith+
    then show ?thesis using doy(2) unfolding doe_def by linarith
  qed
  moreover have "0 \<le> doe"
  proof -
    have "yoe div 100 \<le> yoe" using yoe by linarith
    moreover have "0 \<le> yoe div 4" using yoe by linarith
    ultimately show ?thesis using yoe doy(1) unfolding doe_def by linarith
  qed
  ultimately have E: "(era * 146097 + doe) div 146097 = era" by (simp add: div_pos_pos_trivial)
  have MP: "(5 * doy + 2) div 153 = mp"
    using monthIndex_correct [OF mp, of "d - 1"] dlt assms(3) by (simp add: doy_def algebra_simps)
  have doy': "doe - (365 * yoe + yoe div 4 - yoe div 100) = doy" by (simp add: doe_def)
  have "y = yoe + era * 400 + (if m \<le> 2 then 1 else 0)" by (simp add: yoe_def y'_def)
  moreover have "(if mp < 10 then mp + 3 else mp - 9) = m" using assms(1,2) by (simp add: mp_def)
  moreover have "doy - (153 * mp + 2) div 5 + 1 = d" by (simp add: doy_def)
  moreover have "era * 146097 + doe - era * 146097 = doe" by simp
  ultimately show ?thesis
    unfolding civilDays_def Let_def days
    by (simp only: E Y MP doy')
qed

section \<open>Times\<close>

record gotime =
  tsec :: int
  tnsec :: int
  toff :: int

definition wallDate :: "gotime \<Rightarrow> int \<times> int \<times> int" where
  "wallDate t = civilDays ((tsec t + toff t) div 86400)"

definition Year :: "gotime \<Rightarrow> int" where
  "Year t = fst (wallDate t)"

definition Month :: "gotime \<Rightarrow> int" where
  "Month t = fst (snd (wallDate t))"

definition UTC :: "gotime \<Rightarrow> gotime" where
  "UTC t = t\<lparr>toff := 0\<rparr>"

text \<open>\<^verbatim>\<open>Time.Sub\<close> saturates at the ends of the \<^verbatim>\<open>int64\<close> range.\<close>

definition Sub :: "gotime \<Rightarrow> gotime \<Rightarrow> int" where
  "Sub t u =
     (let d = (tsec t - tsec u) * 1000000000 + (tnsec t - tnsec u)
      in if d < - (2 ^ 63) then - (2 ^ 63) else if 2 ^ 63 \<le> d then 2 ^ 63 - 1 else d)"

definition Millisecond :: int where "Millisecond = 1000000"
definition Second :: int where "Second = 1000 * Millisecond"
definition Minute :: int where "Minute = 60 * Second"
definition Hour :: int where "Hour = 60 * Minute"

section \<open>time.Parse for RFC3339 and RFC3339Nano\<close>

definition digitVal :: "char \<Rightarrow> int" where
  "digitVal c = int (of_char c) - 48"

fun getnum :: "string \<Rightarrow> bool \<Rightarrow> (int \<times> string) option" where
  "getnum [] fixed = None"
| "getnum (a # s) fixed =
     (if \<not> isDigit a then None
      else case s of
        b # r \<Rightarrow> if isDigit b then Some (digitVal a * 10 + digitVal b, r)
                 else if fixed then None else Some (digitVal a, s)
      | [] \<Rightarrow> if fixed then None else Some (digitVal a, s))"

definition skipByte :: "char \<Rightarrow> string \<Rightarrow> string option" where
  "skipByte c s = (case s of x # r \<Rightarrow> if x = c then Some r else None | [] \<Rightarrow> None)"

definition getYear :: "string \<Rightarrow> (int \<times> string) option" where
  "getYear s =
     (if length s < 4 \<or> \<not> list_all isDigit (take 4 s) then None
      else Some (int (digitsVal (take 4 s)), drop 4 s))"

definition inRange :: "int \<Rightarrow> int \<Rightarrow> int \<times> string \<Rightarrow> (int \<times> string) option" where
  "inRange lo hi p = (if lo \<le> fst p \<and> fst p \<le> hi then Some p else None)"

text \<open>\<open>value\<close> starts with the comma or period and has \<open>n - 1\<close> digits after it.\<close>

definition parseNanoseconds :: "string \<Rightarrow> nat \<Rightarrow> int" where
  "parseNanoseconds value n =
     (let k = min n 10 in int (digitsVal (take (k - 1) (drop 1 value))) * 10 ^ (10 - k))"

definition commaOrPeriod :: "char \<Rightarrow> bool" where
  "commaOrPeriod c \<longleftrightarrow> c = CHR ''.'' \<or> c = CHR '',''"

text \<open>A fraction the layout does not mention, read after the seconds.\<close>

definition fracUnmentioned :: "string \<Rightarrow> int \<times> string" where
  "fracUnmentioned s =
     (if 2 \<le> length s \<and> commaOrPeriod (s ! 0) \<and> isDigit (s ! 1)
      then (let n = 2 + length (takeWhile isDigit (drop 2 s)) in (parseNanoseconds s n, drop n s))
      else (0, s))"

text \<open>The layout element \<^verbatim>\<open>.999999999\<close>.\<close>

definition fracLayout9 :: "string \<Rightarrow> int \<times> string" where
  "fracLayout9 s =
     (if length s < 2 \<or> \<not> commaOrPeriod (s ! 0) \<or> \<not> isDigit (s ! 1) then (0, s)
      else (let i = length (takeWhile isDigit (drop 1 s)) in (parseNanoseconds s (1 + i), drop (1 + i) s)))"

definition parseZone :: "string \<Rightarrow> (int \<times> string) option" where
  "parseZone s =
     (if s \<noteq> [] \<and> hd s = CHR ''Z'' then Some (0, tl s)
      else if length s < 6 \<or> s ! 3 \<noteq> CHR '':'' then None
      else Option.bind (getnum (take 2 (drop 1 s)) True) (\<lambda>(hr, _).
           Option.bind (getnum (take 2 (drop 4 s)) True) (\<lambda>(mm, _).
                 if hr > 24 \<or> mm > 60 then None
                 else if s ! 0 = CHR ''+'' then Some ((hr * 60 + mm) * 60, drop 6 s)
                 else if s ! 0 = CHR ''-'' then Some (- ((hr * 60 + mm) * 60), drop 6 s)
                 else None)))"

text \<open>
  The general parser; \<open>nano\<close> selects the layout with \<^verbatim>\<open>.999999999\<close>. Go's fast path for these
  layouts accepts a subset with the same results, so it is not modelled apart.
\<close>

definition parseTime :: "bool \<Rightarrow> string \<Rightarrow> gotime option" where
  "parseTime nano s =
     Option.bind (getYear s) (\<lambda>(year, s).
     Option.bind (skipByte CHR ''-'' s) (\<lambda>s.
     Option.bind (Option.bind (getnum s True) (inRange 1 12)) (\<lambda>(month, s).
     Option.bind (skipByte CHR ''-'' s) (\<lambda>s.
     Option.bind (getnum s True) (\<lambda>(day, s).
     Option.bind (skipByte CHR ''T'' s) (\<lambda>s.
     Option.bind (Option.bind (getnum s False) (inRange 0 23)) (\<lambda>(hour, s).
     Option.bind (skipByte CHR '':'' s) (\<lambda>s.
     Option.bind (Option.bind (getnum s True) (inRange 0 59)) (\<lambda>(minute, s).
     Option.bind (skipByte CHR '':'' s) (\<lambda>s.
     Option.bind (Option.bind (getnum s True) (inRange 0 59)) (\<lambda>(sec, s).
     (case (if nano then fracLayout9 s else fracUnmentioned s) of (nsec, s) \<Rightarrow>
     Option.bind (parseZone s) (\<lambda>(off, s).
       if s \<noteq> [] \<or> day < 1 \<or> day > daysIn month year then None
       else Some \<lparr>tsec = daysCivil year month day * 86400 + hour * 3600 + minute * 60 + sec - off,
                  tnsec = nsec, toff = off\<rparr>)))))))))))))"

lemma fracLayout9_eq: "fracLayout9 s = fracUnmentioned s"
proof (cases "2 \<le> length s \<and> commaOrPeriod (s ! 0) \<and> isDigit (s ! 1)")
  case True
  then obtain a b r where "s = a # b # r" "isDigit b"
    by (cases s; cases "tl s") auto
  with True show ?thesis by (simp add: fracLayout9_def fracUnmentioned_def Let_def)
next
  case False
  then show ?thesis by (auto simp: fracLayout9_def fracUnmentioned_def)
qed

lemma parseTime_nano: "parseTime True s = parseTime False s"
  by (simp add: parseTime_def fracLayout9_eq)

subsection \<open>What a well-formed UTC timestamp parses to\<close>

definition twoDigits :: "nat \<Rightarrow> string" where
  "twoDigits n = [digitChar (n div 10), digitChar (n mod 10)]"

definition fourDigits :: "nat \<Rightarrow> string" where
  "fourDigits n = [digitChar (n div 1000), digitChar (n div 100 mod 10),
                   digitChar (n div 10 mod 10), digitChar (n mod 10)]"

definition utcStamp :: "nat \<Rightarrow> nat \<Rightarrow> nat \<Rightarrow> nat \<Rightarrow> nat \<Rightarrow> nat \<Rightarrow> string" where
  "utcStamp y m d h mi s =
     fourDigits y @ ''-'' @ twoDigits m @ ''-'' @ twoDigits d @ ''T'' @
     twoDigits h @ '':'' @ twoDigits mi @ '':'' @ twoDigits s @ ''Z''"

lemma digitVal_digitChar [simp]: "d < 10 \<Longrightarrow> digitVal (digitChar d) = int d"
  by (simp add: digitVal_def)

lemma getnum_twoDigits [simp]: "n < 100 \<Longrightarrow> getnum (twoDigits n @ s) fixed = Some (int n, s)"
proof -
  assume "n < 100"
  moreover have "int (n div 10) * 10 + int (n mod 10) = int n"
    by (metis div_mult_mod_eq of_nat_add of_nat_mult of_nat_numeral)
  ultimately show ?thesis by (simp add: twoDigits_def)
qed

lemma getYear_fourDigits [simp]: "n < 10000 \<Longrightarrow> getYear (fourDigits n @ s) = Some (int n, s)"
proof -
  assume n: "n < 10000"
  then have "n div 1000 < 10" by simp
  moreover have "((n div 1000 * 10 + n div 100 mod 10) * 10 + n div 10 mod 10) * 10 + n mod 10 = n"
  proof -
    have "n div 1000 = n div 100 div 10" "n div 100 = n div 10 div 10"
      by (simp_all add: div_mult2_eq [symmetric])
    then show ?thesis by (metis div_mult_mod_eq)
  qed
  ultimately show ?thesis
    by (simp add: getYear_def fourDigits_def digitsVal_def)
qed

lemma parseTime_utcStamp:
  assumes "y < 10000" "1 \<le> m" "m \<le> 12" "1 \<le> d" "int d \<le> daysIn (int m) (int y)"
    "h < 24" "mi < 60" "s < 60"
  shows "parseTime False (utcStamp y m d h mi s) =
    Some \<lparr>tsec = daysCivil (int y) (int m) (int d) * 86400 + int h * 3600 + int mi * 60 + int s,
          tnsec = 0, toff = 0\<rparr>"
proof -
  have "d \<le> 31" using assms(5) by (auto simp: daysIn_def split: if_splits)
  then show ?thesis
    using assms
    by (simp add: parseTime_def utcStamp_def skipByte_def inRange_def fracUnmentioned_def
        commaOrPeriod_def parseZone_def)
qed

lemma wallDate_utc:
  assumes "1 \<le> m" "m \<le> 12" "1 \<le> d" "d \<le> daysIn m y" "0 \<le> sod" "sod < 86400"
  shows "wallDate \<lparr>tsec = daysCivil y m d * 86400 + sod, tnsec = n, toff = 0\<rparr> = (y, m, d)"
proof -
  have "(daysCivil y m d * 86400 + sod) div 86400 = daysCivil y m d"
    using assms(5,6) by (simp add: div_pos_pos_trivial)
  then show ?thesis
    using civilDays_daysCivil [OF assms(1-4)] by (simp add: wallDate_def)
qed

end
