(* ===== verification/GoUtf8.thy ===== *)
theory GoUtf8
  imports GoLib
begin

text \<open>
  Go's UTF-8 decoding, as \<^verbatim>\<open>for _, r := range s\<close> performs it, and \<^verbatim>\<open>WriteRune\<close>. An invalid
  sequence decodes to U+FFFD and consumes one byte. The lemmas show that decoding is total, that
  re-encoding a valid string gives it back, and that ASCII strings are valid.
\<close>

definition byteIn :: "nat \<Rightarrow> nat \<Rightarrow> char \<Rightarrow> bool" where
  "byteIn lo hi c \<longleftrightarrow> lo \<le> of_char c \<and> of_char c \<le> hi"

definition low6 :: "char \<Rightarrow> nat" where
  "low6 c = of_char c mod 64"

text \<open>The accepted second bytes exclude overlong forms, surrogates and values past U+10FFFF.\<close>

definition second3 :: "nat \<Rightarrow> char \<Rightarrow> bool" where
  "second3 n c \<longleftrightarrow> byteIn (if n = 224 then 160 else 128) (if n = 237 then 159 else 191) c"

definition second4 :: "nat \<Rightarrow> char \<Rightarrow> bool" where
  "second4 n c \<longleftrightarrow> byteIn (if n = 240 then 144 else 128) (if n = 244 then 143 else 191) c"

text \<open>\<^verbatim>\<open>utf8.DecodeRuneInString\<close>: the rune and its width; \<open>None\<close> for an invalid sequence.\<close>

definition decodeValid :: "string \<Rightarrow> (nat \<times> nat) option" where
  "decodeValid s =
     (case s of [] \<Rightarrow> None
      | b # t \<Rightarrow>
          let n = of_char b in
          if n < 128 then Some (n, 1)
          else if 194 \<le> n \<and> n \<le> 223 then
            (case t of c1 # _ \<Rightarrow>
               if byteIn 128 191 c1 then Some (n mod 32 * 64 + low6 c1, 2) else None
             | [] \<Rightarrow> None)
          else if 224 \<le> n \<and> n \<le> 239 then
            (case t of c1 # c2 # _ \<Rightarrow>
               if second3 n c1 \<and> byteIn 128 191 c2
               then Some (n mod 16 * 4096 + low6 c1 * 64 + low6 c2, 3) else None
             | _ \<Rightarrow> None)
          else if 240 \<le> n \<and> n \<le> 244 then
            (case t of c1 # c2 # c3 # _ \<Rightarrow>
               if second4 n c1 \<and> byteIn 128 191 c2 \<and> byteIn 128 191 c3
               then Some (n mod 8 * 262144 + low6 c1 * 4096 + low6 c2 * 64 + low6 c3, 4) else None
             | _ \<Rightarrow> None)
          else None)"

definition decodeRune :: "string \<Rightarrow> nat \<times> nat" where
  "decodeRune s = (case decodeValid s of Some p \<Rightarrow> p | None \<Rightarrow> (65533, 1))"

lemma decodeValid_width: "decodeValid s = Some (r, w) \<Longrightarrow> 0 < w \<and> w \<le> 4"
  by (auto simp: decodeValid_def Let_def split: list.splits if_splits)

lemma decodeRune_width: "0 < snd (decodeRune s)"
  using decodeValid_width by (fastforce simp: decodeRune_def split: option.splits)

text \<open>The runes of a string, in order.\<close>

function runes :: "string \<Rightarrow> nat list" where
  "runes s = (if s = [] then [] else fst (decodeRune s) # runes (drop (snd (decodeRune s)) s))"
  by pat_completeness auto
termination
  using decodeRune_width by (relation "measure length") auto

declare runes.simps [simp del]

definition encodeRune :: "nat \<Rightarrow> string" where
  "encodeRune r =
     (if r < 128 then [char_of r]
      else if r < 2048 then [char_of (192 + r div 64), char_of (128 + r mod 64)]
      else if (55296 \<le> r \<and> r \<le> 57343) \<or> 1114111 < r then [CHR 0xEF, CHR 0xBF, CHR 0xBD]
      else if r < 65536 then
        [char_of (224 + r div 4096), char_of (128 + r div 64 mod 64), char_of (128 + r mod 64)]
      else
        [char_of (240 + r div 262144), char_of (128 + r div 4096 mod 64),
         char_of (128 + r div 64 mod 64), char_of (128 + r mod 64)])"

text \<open>\<^verbatim>\<open>utf8.ValidString\<close>.\<close>

function validUtf8 :: "string \<Rightarrow> bool" where
  "validUtf8 s =
     (if s = [] then True
      else case decodeValid s of None \<Rightarrow> False | Some p \<Rightarrow> validUtf8 (drop (snd p) s))"
  by pat_completeness auto
termination
  using decodeValid_width by (relation "measure length") auto

declare validUtf8.simps [simp del]

section \<open>Re-encoding\<close>

lemma nat_mod_offset:
  fixes n :: nat
  assumes "d * q \<le> n" "n < d * q + d"
  shows "n = d * q + n mod d"
proof -
  have "n div d = q" by (rule div_nat_eqI) (use assms in \<open>simp_all add: mult.commute\<close>)
  then show ?thesis using div_mult_mod_eq [of n d] by (simp add: mult.commute)
qed

lemma cont_val: "byteIn 128 191 c \<Longrightarrow> of_char c = 128 + low6 c"
  using nat_mod_offset [of 64 2 "of_char c"] by (simp add: byteIn_def low6_def)

lemma cont_byte:
  assumes "byteIn 128 191 c"
  shows "char_of (128 + low6 c) = c" "low6 c < 64"
proof -
  show "char_of (128 + low6 c) = c" using cont_val [OF assms] by (metis char_of_char)
  show "low6 c < 64" by (simp add: low6_def)
qed

lemma byteIn_weaken: "byteIn lo hi c \<Longrightarrow> 128 \<le> lo \<Longrightarrow> hi \<le> 191 \<Longrightarrow> byteIn 128 191 c"
  by (auto simp: byteIn_def)

lemma unpack6:
  fixes a b :: nat
  assumes "b < 64"
  shows "(a * 64 + b) div 64 = a" "(a * 64 + b) mod 64 = b"
  using assms by simp_all

lemma unpack3:
  fixes k x y :: nat
  assumes "x < 64" "y < 64" "r = k * 4096 + x * 64 + y"
  shows "r div 4096 = k" "r div 64 mod 64 = x" "r mod 64 = y"
proof -
  have r: "r = (k * 64 + x) * 64 + y" using assms(3) by simp
  have "r div 4096 = r div 64 div 64" by (simp add: div_mult2_eq [symmetric])
  then show "r div 4096 = k" using assms(1,2) by (simp only: r unpack6)
  show "r div 64 mod 64 = x" "r mod 64 = y" using assms(1,2) by (simp_all only: r unpack6)
qed

lemma encode_decode2:
  assumes "(194::nat) \<le> of_char b" "of_char b \<le> (223::nat)" "byteIn 128 191 c1"
  shows "encodeRune (of_char b mod 32 * 64 + low6 c1) = [b, c1]"
proof -
  define k where "k = (of_char b :: nat) mod 32"
  have b: "of_char b = 192 + k" "2 \<le> k" "k < 32"
    using assms(1,2) nat_mod_offset [of 32 6 "of_char b"] unfolding k_def by auto
  note c = cont_byte [OF assms(3)]
  have "128 \<le> k * 64 + low6 c1" "k * 64 + low6 c1 < 2048" using b c(2) by simp_all
  moreover have "(k * 64 + low6 c1) div 64 = k" "(k * 64 + low6 c1) mod 64 = low6 c1"
    using c(2) by simp_all
  ultimately show ?thesis
    using b(2) c(1) char_of_nat_eq [OF b(1)] unfolding k_def [symmetric] by (simp add: encodeRune_def)
qed

lemma encode_decode3:
  assumes "(224::nat) \<le> of_char b" "of_char b \<le> (239::nat)"
    "second3 (of_char b) c1"
    "byteIn 128 191 c2"
  shows "encodeRune (of_char b mod 16 * 4096 + low6 c1 * 64 + low6 c2) = [b, c1, c2]"
proof -
  define k where "k = (of_char b :: nat) mod 16"
  have b: "of_char b = 224 + k" "k < 16"
    using assms(1,2) nat_mod_offset [of 16 14 "of_char b"] unfolding k_def by auto
  have B1: "byteIn 128 191 c1" using byteIn_weaken assms(3) unfolding second3_def by simp
  note c1 = cont_byte [OF B1] and c2 = cont_byte [OF assms(4)]
  let ?r = "k * 4096 + low6 c1 * 64 + low6 c2"
  have l1: "k = 0 \<Longrightarrow> 32 \<le> low6 c1" "k = 13 \<Longrightarrow> low6 c1 < 32"
    using assms(3) b(1) cont_val [OF B1] unfolding second3_def byteIn_def by auto
  have "2048 \<le> ?r" "?r < 65536" using b(2) c1(2) c2(2) l1(1) by (cases "k = 0"; simp)+
  moreover have "\<not> (55296 \<le> ?r \<and> ?r \<le> 57343)"
    using b(2) c1(2) c2(2) l1(2) by (cases "k < 13"; cases "k = 13"; simp)
  moreover have "?r div 4096 = k" "?r div 64 mod 64 = low6 c1" "?r mod 64 = low6 c2"
    using unpack3 [OF c1(2) c2(2) refl] by simp_all
  ultimately show ?thesis
    using c1(1) c2(1) char_of_nat_eq [OF b(1)] unfolding k_def [symmetric] by (auto simp: encodeRune_def)
qed

lemma encode_decode4:
  assumes "(240::nat) \<le> of_char b" "of_char b \<le> (244::nat)"
    "second4 (of_char b) c1" "byteIn 128 191 c2" "byteIn 128 191 c3"
  shows "encodeRune (of_char b mod 8 * 262144 + low6 c1 * 4096 + low6 c2 * 64 + low6 c3)
     = [b, c1, c2, c3]"
proof -
  define k where "k = (of_char b :: nat) mod 8"
  have b: "of_char b = 240 + k" "k < 5"
    using assms(1,2) nat_mod_offset [of 8 30 "of_char b"] unfolding k_def by auto
  have B1: "byteIn 128 191 c1" using byteIn_weaken assms(3) unfolding second4_def by simp
  note c1 = cont_byte [OF B1] and c2 = cont_byte [OF assms(4)] and c3 = cont_byte [OF assms(5)]
  let ?r = "k * 262144 + low6 c1 * 4096 + low6 c2 * 64 + low6 c3"
  have l1: "k = 0 \<Longrightarrow> 16 \<le> low6 c1" "k = 4 \<Longrightarrow> low6 c1 < 16"
    using assms(3) b(1) cont_val [OF B1] unfolding second4_def byteIn_def by auto
  have "65536 \<le> ?r" using l1(1) by (cases "k = 0"; simp)
  moreover have "?r \<le> 1114111"
    using b(2) c1(2) c2(2) c3(2) l1(2) by (cases "k = 4"; simp)
  moreover have "?r div 262144 = k" "?r div 4096 mod 64 = low6 c1" "?r div 64 mod 64 = low6 c2"
    "?r mod 64 = low6 c3"
  proof -
    have r: "?r = (k * 64 + low6 c1) * 4096 + low6 c2 * 64 + low6 c3" by simp
    note u = unpack3 [OF c2(2) c3(2) r]
    have "?r div 262144 = ?r div 4096 div 64" by (simp only: div_mult2_eq [symmetric]) simp
    then show "?r div 262144 = k" using c1(2) by (simp only: u unpack6)
    show "?r div 4096 mod 64 = low6 c1" using c1(2) by (simp only: u unpack6)
    show "?r div 64 mod 64 = low6 c2" "?r mod 64 = low6 c3" using u by simp_all
  qed
  ultimately show ?thesis
    using c1(1) c2(1) c3(1) char_of_nat_eq [OF b(1)] unfolding k_def [symmetric]
    by (auto simp: encodeRune_def)
qed

lemma encode_decodeValid:
  "decodeValid s = Some (r, w) \<Longrightarrow> encodeRune r = take w s"
  by (auto simp: decodeValid_def Let_def encode_decode2 encode_decode3 encode_decode4
      encodeRune_def [of "of_char _"] split: list.splits if_splits)

lemma encode_runes: "validUtf8 s \<Longrightarrow> concat (map encodeRune (runes s)) = s"
proof (induction s rule: validUtf8.induct)
  case (1 s)
  show ?case
  proof (cases "s = []")
    case True
    then show ?thesis by (simp add: runes.simps)
  next
    case False
    then obtain p where p: "decodeValid s = Some p" "validUtf8 (drop (snd p) s)"
      using 1(2) by (subst (asm) validUtf8.simps) (auto split: option.splits)
    have "concat (map encodeRune (runes (drop (snd p) s))) = drop (snd p) s"
      using False p by (rule 1(1))
    then show ?thesis
      using False p(1) encode_decodeValid [of s "fst p" "snd p"]
      by (subst runes.simps) (simp add: decodeRune_def)
  qed
qed

lemma validUtf8_Cons_ascii: "of_char c < (128::nat) \<Longrightarrow> validUtf8 (c # s) = validUtf8 s"
  by (subst validUtf8.simps) (simp add: decodeValid_def)

lemma validUtf8_ascii: "list_all (\<lambda>c. of_char c < (128::nat)) s \<Longrightarrow> validUtf8 s"
  by (induction s) (simp_all add: validUtf8_Cons_ascii, simp add: validUtf8.simps)

section \<open>Decoding again\<close>

lemma decodeValid_multibyte:
  assumes "decodeValid s = Some (r, w)" "1 < w"
  shows "list_all (\<lambda>c. 128 \<le> (of_char c :: nat)) (take w s)" "length (take w s) = w"
  using assms
  by (auto simp: decodeValid_def Let_def byteIn_def second3_def second4_def split: list.splits if_splits)

lemma decodeValid_ascii: "decodeValid s = Some (r, w) \<Longrightarrow> w = 1 \<Longrightarrow> \<exists>c t. s = c # t \<and> r = of_char c \<and> r < 128"
  by (auto simp: decodeValid_def Let_def split: list.splits if_splits)

definition highByte :: "char \<Rightarrow> bool" where
  "highByte c \<longleftrightarrow> 128 \<le> (of_char c :: nat)"

lemma contByte_high:
  "byteIn 128 191 d \<Longrightarrow> highByte d" "second3 n d \<Longrightarrow> highByte d" "second4 n d \<Longrightarrow> highByte d"
  by (auto simp: byteIn_def second3_def second4_def highByte_def split: if_splits)

text \<open>A multi-byte rune is decided by the bytes above 127 that follow.\<close>

lemma decodeValid_highBytes:
  assumes "highByte c"
  shows "decodeValid (c # takeWhile highByte t) = decodeValid (c # t)"
proof (cases t)
  case (Cons x t1)
  show ?thesis
  proof (cases t1)
    case Nil
    with Cons assms show ?thesis
      by (auto simp: decodeValid_def Let_def dest: contByte_high)
  next
    case C1: (Cons y t2)
    show ?thesis
    proof (cases t2)
      case Nil
      with Cons C1 assms show ?thesis
        by (auto simp: decodeValid_def Let_def dest: contByte_high)
    next
      case (Cons z t3)
      with \<open>t = x # t1\<close> C1 assms show ?thesis
        by (auto simp: decodeValid_def Let_def dest: contByte_high)
    qed
  qed
qed simp

lemma decodeValid_high_width:
  "decodeValid (c # s) = Some (r, w) \<Longrightarrow> highByte c \<Longrightarrow> 1 < w"
  using decodeValid_ascii [of "c # s" r w] decodeValid_width [of "c # s" r w]
  by (fastforce simp: highByte_def)

lemma decodeValid_prefix:
  assumes "decodeValid (x @ u) = Some (r, length x)"
  shows "decodeValid (x @ t) = Some (r, length x)"
proof -
  have "0 < length x \<and> length x \<le> 4" using decodeValid_width [OF assms] .
  then consider (1) a where "x = [a]" | (2) a b where "x = [a, b]" | (3) a b c where "x = [a, b, c]"
    | (4) a b c d where "x = [a, b, c, d]"
    by (cases x rule: list.exhaust; cases "tl x" rule: list.exhaust; cases "tl (tl x)" rule: list.exhaust;
        cases "tl (tl (tl x))" rule: list.exhaust) auto
  then show ?thesis
  proof cases
    case 1
    with assms show ?thesis
      by (auto simp: decodeValid_def Let_def split: if_splits list.splits)
  next
    case 2
    with assms show ?thesis
      by (auto simp: decodeValid_def Let_def split: if_splits list.splits)
  next
    case 3
    with assms show ?thesis
      by (auto simp: decodeValid_def Let_def split: if_splits list.splits)
  next
    case 4
    have "decodeValid ([a, b, c, d] @ t) = decodeValid ([a, b, c, d] @ u)"
      by (simp only: decodeValid_def append_Cons append_Nil list.case)
    with 4 assms show ?thesis by simp
  qed
qed

lemma encodeRune_replacement: "encodeRune 65533 = [CHR 0xEF, CHR 0xBF, CHR 0xBD]"
proof -
  have "char_of (239::nat) = CHR 0xEF" "char_of (191::nat) = CHR 0xBF" "char_of (189::nat) = CHR 0xBD"
    by (rule char_of_nat_eq, simp)+
  then show ?thesis by (simp add: encodeRune_def)
qed

text \<open>A rune that was decoded is encoded so that it is decoded again, whatever follows.\<close>

lemma decoded_rune:
  assumes "s \<noteq> []" "r = fst (decodeRune s)"
  shows "encodeRune r \<noteq> []" "decodeRune (encodeRune r @ t) = (r, length (encodeRune r))"
    "128 \<le> r \<Longrightarrow> highByte (hd (encodeRune r))"
proof -
  have "encodeRune r \<noteq> [] \<and> decodeRune (encodeRune r @ t) = (r, length (encodeRune r))
    \<and> (128 \<le> r \<longrightarrow> highByte (hd (encodeRune r)))"
  proof (cases "decodeValid s")
    case None
    with assms have "r = 65533" by (simp add: decodeRune_def)
    then show ?thesis
      by (simp add: encodeRune_replacement highByte_def decodeRune_def decodeValid_def second3_def byteIn_def low6_def)
  next
    case (Some p)
    with assms have p: "decodeValid s = Some (r, snd p)" by (auto simp: decodeRune_def)
    have e: "encodeRune r = take (snd p) s" using encode_decodeValid p by blast
    have w: "0 < snd p" using decodeValid_width [OF p] by simp
    have len: "length (encodeRune r) = snd p \<and> (128 \<le> r \<longrightarrow> highByte (hd (encodeRune r)))"
    proof (cases "snd p = 1")
      case True
      then show ?thesis using decodeValid_ascii [OF p] e by auto
    next
      case False
      with w have "1 < snd p" by simp
      with decodeValid_multibyte [OF p this] show ?thesis
        unfolding e [symmetric] by (cases "encodeRune r") (auto simp: highByte_def)
    qed
    have "decodeValid (encodeRune r @ drop (snd p) s) = Some (r, length (encodeRune r))"
      using p e len by simp
    from decodeValid_prefix [OF this, of t] show ?thesis using len w by (auto simp: decodeRune_def)
  qed
  then show "encodeRune r \<noteq> []" "decodeRune (encodeRune r @ t) = (r, length (encodeRune r))"
    "128 \<le> r \<Longrightarrow> highByte (hd (encodeRune r))" by blast+
qed

text \<open>The string with every invalid byte replaced by the encoding of U+FFFD.\<close>

definition toValidUTF8 :: "string \<Rightarrow> string" where
  "toValidUTF8 s = concat (map encodeRune (runes s))"

lemma toValidUTF8_valid: "validUtf8 s \<Longrightarrow> toValidUTF8 s = s"
  by (simp add: toValidUTF8_def encode_runes)

lemma toValidUTF8_Nil: "toValidUTF8 s = [] \<longleftrightarrow> s = []"
proof (cases "s = []")
  case False
  then have "runes s = fst (decodeRune s) # runes (drop (snd (decodeRune s)) s)"
    by (subst runes.simps) simp
  then show ?thesis using decoded_rune(1) [OF False refl] False by (simp add: toValidUTF8_def)
qed (simp add: toValidUTF8_def runes.simps)

end
