(* ===== verification/GoJson.thy ===== *)
theory GoJson
  imports GoUtf8
begin

text \<open>
  \<^verbatim>\<open>encoding/json\<close>: the value grammar as \<^verbatim>\<open>json.Unmarshal\<close> checks it (white space,
  escapes, numbers with exponents, the nesting limit) and the strings as it unquotes them, with invalid
  UTF-8 replaced and surrogate pairs joined. The result is a tree that keeps the members of an object in
  order, repeated keys included; what becomes of them depends on the Go type they are stored into.
\<close>

section \<open>Strings\<close>

definition isHex :: "char \<Rightarrow> bool" where
  "isHex c \<longleftrightarrow> isDigit c \<or> (97 \<le> (of_char c :: nat) \<and> (of_char c :: nat) \<le> 102)
     \<or> (65 \<le> (of_char c :: nat) \<and> (of_char c :: nat) \<le> 70)"

definition hexVal :: "char \<Rightarrow> nat" where
  "hexVal c = (if of_char c < (65::nat) then of_char c - 48
               else if of_char c < (97::nat) then of_char c - 55 else of_char c - 87)"

text \<open>The characters up to the closing quote, still escaped, and what follows the quote.\<close>

fun scanChars :: "string \<Rightarrow> (string \<times> string) option" where
  "scanChars [] = None"
| "scanChars (c # s) =
     (if c = CHR 0x22 then Some ([], s)
      else if c = CHR 0x5C then
        (case s of
           e # s' \<Rightarrow>
             if e \<in> {CHR 0x22, CHR 0x5C, CHR ''/'', CHR ''b'', CHR ''f'', CHR ''n'', CHR ''r'', CHR ''t''}
             then map_option (\<lambda>(a, r). (c # e # a, r)) (scanChars s')
             else if e = CHR ''u'' then
               (case s' of
                  h1 # h2 # h3 # h4 # s'' \<Rightarrow>
                    if isHex h1 \<and> isHex h2 \<and> isHex h3 \<and> isHex h4
                    then map_option (\<lambda>(a, r). (c # e # h1 # h2 # h3 # h4 # a, r)) (scanChars s'')
                    else None
                | _ \<Rightarrow> None)
             else None
         | [] \<Rightarrow> None)
      else if of_char c < (32::nat) then None
      else map_option (\<lambda>(a, r). (c # a, r)) (scanChars s))"

definition getu4 :: "string \<Rightarrow> nat option" where
  "getu4 s =
     (case s of
        b # u # h1 # h2 # h3 # h4 # _ \<Rightarrow>
          if b = CHR 0x5C \<and> u = CHR ''u'' \<and> isHex h1 \<and> isHex h2 \<and> isHex h3 \<and> isHex h4
          then Some (((hexVal h1 * 16 + hexVal h2) * 16 + hexVal h3) * 16 + hexVal h4) else None
      | _ \<Rightarrow> None)"

definition highSurrogate :: "nat \<Rightarrow> bool" where "highSurrogate r \<longleftrightarrow> 55296 \<le> r \<and> r < 56320"
definition lowSurrogate :: "nat \<Rightarrow> bool" where "lowSurrogate r \<longleftrightarrow> 56320 \<le> r \<and> r < 57344"

definition joinSurrogates :: "nat \<Rightarrow> nat \<Rightarrow> nat" where
  "joinSurrogates r1 r2 = (r1 - 55296) * 1024 + (r2 - 56320) + 65536"

definition unescapeChar :: "char \<Rightarrow> char" where
  "unescapeChar e =
     (if e = CHR ''b'' then CHR 0x08 else if e = CHR ''f'' then CHR 0x0C
      else if e = CHR ''n'' then CHR 0x0A else if e = CHR ''r'' then CHR 0x0D
      else if e = CHR ''t'' then CHR 0x09 else e)"

text \<open>One turn of the loop of \<^verbatim>\<open>unquoteBytes\<close>: the bytes written and the number of bytes read.
  The scanner has accepted the string before, so no escape is cut off.\<close>

definition unquoteStep :: "string \<Rightarrow> string \<times> nat" where
  "unquoteStep s =
     (case s of
        [] \<Rightarrow> ([], 1)
      | c # t \<Rightarrow>
          if c = CHR 0x5C then
            (case t of
               [] \<Rightarrow> ([], 1)
             | e # _ \<Rightarrow>
                 if e = CHR ''u'' then
                   (case getu4 s of
                      None \<Rightarrow> ([], 2)
                    | Some r1 \<Rightarrow>
                        if highSurrogate r1 \<or> lowSurrogate r1 then
                          (case getu4 (drop 6 s) of
                             Some r2 \<Rightarrow>
                               if highSurrogate r1 \<and> lowSurrogate r2
                               then (encodeRune (joinSurrogates r1 r2), 12) else (encodeRune 65533, 6)
                           | None \<Rightarrow> (encodeRune 65533, 6))
                        else (encodeRune r1, 6))
                 else ([unescapeChar e], 2))
          else if of_char c < (128::nat) then ([c], 1)
          else (encodeRune (fst (decodeRune s)), snd (decodeRune s)))"

lemma unquoteStep_reads: "0 < snd (unquoteStep s)"
  by (auto simp: unquoteStep_def decodeRune_width split: list.splits option.splits)

function unquoteBytes :: "string \<Rightarrow> string" where
  "unquoteBytes s =
     (if s = [] then [] else fst (unquoteStep s) @ unquoteBytes (drop (snd (unquoteStep s)) s))"
  by pat_completeness auto
termination
  using unquoteStep_reads by (relation "measure length") auto

declare unquoteBytes.simps [simp del]

section \<open>Numbers\<close>

definition scanInt :: "string \<Rightarrow> (string \<times> string) option" where
  "scanInt s =
     (case s of
        [] \<Rightarrow> None
      | c # t \<Rightarrow>
          if c = CHR ''0'' then Some ([c], t)
          else if isDigit c then Some (c # takeWhile isDigit t, dropWhile isDigit t) else None)"

definition scanFrac :: "string \<Rightarrow> (string \<times> string) option" where
  "scanFrac s =
     (case s of
        [] \<Rightarrow> Some ([], [])
      | c # t \<Rightarrow>
          if c = CHR ''.''
          then (if takeWhile isDigit t = [] then None
                else Some (c # takeWhile isDigit t, dropWhile isDigit t))
          else Some ([], s))"

definition scanExp :: "string \<Rightarrow> (string \<times> string) option" where
  "scanExp s =
     (case s of
        [] \<Rightarrow> Some ([], [])
      | c # t \<Rightarrow>
          if c = CHR ''e'' \<or> c = CHR ''E''
          then (let sign = takeWhile (\<lambda>x. x = CHR ''+'' \<or> x = CHR ''-'') (take 1 t);
                    ds = drop (length sign) t
                in if takeWhile isDigit ds = [] then None
                   else Some (c # sign @ takeWhile isDigit ds, dropWhile isDigit ds))
          else Some ([], s))"

definition scanUnsigned :: "string \<Rightarrow> (string \<times> string) option" where
  "scanUnsigned s =
     (case scanInt s of
        None \<Rightarrow> None
      | Some (ip, s1) \<Rightarrow>
          (case scanFrac s1 of
             None \<Rightarrow> None
           | Some (fp, s2) \<Rightarrow> map_option (\<lambda>(xp, s3). (ip @ fp @ xp, s3)) (scanExp s2)))"

definition scanNumber :: "string \<Rightarrow> (string \<times> string) option" where
  "scanNumber s =
     (case s of
        [] \<Rightarrow> None
      | c # t \<Rightarrow> if c = CHR ''-'' then map_option (\<lambda>(n, r). (c # n, r)) (scanUnsigned t)
                 else scanUnsigned s)"

section \<open>Values\<close>

datatype json =
    JNull
  | JBool bool
  | JNumber string
  | JString string
  | JArray "json list"
  | JObject "(string \<times> json) list"

definition isJsonSpace :: "char \<Rightarrow> bool" where
  "isJsonSpace c \<longleftrightarrow> c \<in> {CHR 0x20, CHR 0x09, CHR 0x0D, CHR 0x0A}"

definition skipSpace :: "string \<Rightarrow> string" where
  "skipSpace s = dropWhile isJsonSpace s"

definition maxNestingDepth :: int where "maxNestingDepth = 10000"

text \<open>
  \<open>nest\<close> is the number of open arrays and objects. The length tests hold whenever they are made
  (\<open>parseElems_step\<close> and \<open>parseMembers_step\<close> remove them); they make the recursion visibly decrease.
\<close>

function (sequential)
  parseValue :: "int \<Rightarrow> string \<Rightarrow> (json \<times> string) option" and
  parseElems :: "int \<Rightarrow> string \<Rightarrow> (json list \<times> string) option" and
  parseMembers :: "int \<Rightarrow> string \<Rightarrow> ((string \<times> json) list \<times> string) option"
where
  "parseValue nest s =
     (case skipSpace s of
        [] \<Rightarrow> None
      | c # t \<Rightarrow>
          if \<not> length t < length s then None
          else if c = CHR ''['' then
            (if nest + 1 > maxNestingDepth then None
             else if HasPrefix (skipSpace t) '']'' then Some (JArray [], tl (skipSpace t))
             else map_option (\<lambda>(vs, r). (JArray vs, r)) (parseElems (nest + 1) t))
          else if c = CHR ''{'' then
            (if nest + 1 > maxNestingDepth then None
             else if HasPrefix (skipSpace t) ''}'' then Some (JObject [], tl (skipSpace t))
             else map_option (\<lambda>(kvs, r). (JObject kvs, r)) (parseMembers (nest + 1) t))
          else if c = CHR 0x22 then
            map_option (\<lambda>(raw, r). (JString (unquoteBytes raw), r)) (scanChars t)
          else if HasPrefix (c # t) ''true'' then Some (JBool True, drop 4 (c # t))
          else if HasPrefix (c # t) ''false'' then Some (JBool False, drop 5 (c # t))
          else if HasPrefix (c # t) ''null'' then Some (JNull, drop 4 (c # t))
          else map_option (\<lambda>(n, r). (JNumber n, r)) (scanNumber (c # t)))"
| "parseElems nest s =
     (case parseValue nest s of
        None \<Rightarrow> None
      | Some (v, r) \<Rightarrow>
          (case skipSpace r of
             [] \<Rightarrow> None
           | c # t \<Rightarrow>
               if c = CHR '']'' then Some ([v], t)
               else if c = CHR '','' \<and> length t < length s
               then map_option (\<lambda>(vs, r). (v # vs, r)) (parseElems nest t) else None))"
| "parseMembers nest s =
     (if \<not> HasPrefix (skipSpace s) [CHR 0x22] then None
      else case scanChars (tl (skipSpace s)) of
        None \<Rightarrow> None
      | Some (raw, r) \<Rightarrow>
          if \<not> (HasPrefix (skipSpace r) '':'' \<and> length (tl (skipSpace r)) < length s) then None
          else (case parseValue nest (tl (skipSpace r)) of
             None \<Rightarrow> None
           | Some (v, r) \<Rightarrow>
               (case skipSpace r of
                  [] \<Rightarrow> None
                | c # t \<Rightarrow>
                    if c = CHR ''}'' then Some ([(unquoteBytes raw, v)], t)
                    else if c = CHR '','' \<and> length t < length s
                    then map_option (\<lambda>(kvs, r). ((unquoteBytes raw, v) # kvs, r)) (parseMembers nest t)
                    else None)))"
  by pat_completeness auto
termination
  by (relation "measure (\<lambda>x. case x of Inl (_, s) \<Rightarrow> 2 * length s | Inr (Inl (_, s)) \<Rightarrow> Suc (2 * length s)
        | Inr (Inr (_, s)) \<Rightarrow> Suc (2 * length s))") auto

declare parseValue.simps [simp del] parseElems.simps [simp del] parseMembers.simps [simp del]

text \<open>One value, with white space around it and nothing else.\<close>

definition parseDocument :: "string \<Rightarrow> json option" where
  "parseDocument s =
     (case parseValue 0 s of
        Some (v, r) \<Rightarrow> if skipSpace r = [] then Some v else None
      | None \<Rightarrow> None)"

section \<open>Field names\<close>

text \<open>
  \<^verbatim>\<open>foldName\<close>: the smallest rune of each fold set. Among the runes that are not ASCII only U+017F and
  U+212A fold to ASCII; the others are kept, which is enough to compare with an ASCII field name.
\<close>

definition foldRune :: "nat \<Rightarrow> nat" where
  "foldRune r =
     (if 97 \<le> r \<and> r \<le> 122 then r - 32 else if r = 383 then 83 else if r = 8490 then 75 else r)"

definition foldName :: "string \<Rightarrow> nat list" where
  "foldName s = map foldRune (runes s)"

definition matchesField :: "string \<Rightarrow> string \<Rightarrow> bool" where
  "matchesField name key \<longleftrightarrow> key = name \<or> foldName key = foldName name"

section \<open>Laws\<close>

lemma skipSpace_length: "length (skipSpace s) \<le> length s"
  by (simp add: skipSpace_def length_dropWhile_le)

lemma skipSpace_Cons_length: "skipSpace s = c # t \<Longrightarrow> length t < length s"
  using skipSpace_length [of s] by simp

lemma skipSpace_tl_length: "HasPrefix (skipSpace s) [c] \<Longrightarrow> length (tl (skipSpace s)) < length s"
  using skipSpace_Cons_length [of s] by (cases "skipSpace s") (auto simp: HasPrefix_def)

lemma scanChars_length: "scanChars s = Some (a, r) \<Longrightarrow> length r < length s"
proof (induction s arbitrary: a r rule: scanChars.induct)
  case (2 c s)
  then show ?case by (fastforce split: if_splits list.splits)
qed simp

lemma scanInt_length: "scanInt s = Some (a, r) \<Longrightarrow> length r < length s"
  by (auto simp: scanInt_def length_dropWhile_le less_Suc_eq_le split: list.splits if_splits)

lemma scanFrac_length: "scanFrac s = Some (a, r) \<Longrightarrow> length r \<le> length s"
  by (auto simp: scanFrac_def length_dropWhile_le le_Suc_eq split: list.splits if_splits)

lemma scanExp_length: "scanExp s = Some (a, r) \<Longrightarrow> length r \<le> length s"
proof -
  have "length (dropWhile isDigit (drop k t)) \<le> Suc (length t)" for k t
    using length_dropWhile_le [of isDigit "drop k t"] by simp
  then show "scanExp s = Some (a, r) \<Longrightarrow> length r \<le> length s"
    by (auto simp: scanExp_def Let_def split: list.splits if_splits)
qed

lemma scanUnsigned_length: "scanUnsigned s = Some (a, r) \<Longrightarrow> length r < length s"
  by (auto simp: scanUnsigned_def split: option.splits dest!: scanInt_length scanFrac_length scanExp_length)

lemma scanNumber_length: "scanNumber s = Some (a, r) \<Longrightarrow> length r < length s"
  by (auto simp: scanNumber_def split: list.splits if_splits dest!: scanUnsigned_length)

lemma parse_length:
  "parseValue nest s = Some (v, r) \<Longrightarrow> length r < length s"
  "parseElems nest s = Some (vs, r) \<Longrightarrow> length r < length s"
  "parseMembers nest s = Some (kvs, r) \<Longrightarrow> length r < length s"
proof (induction nest s and nest s and nest s arbitrary: v r and vs r and kvs r
    rule: parseValue_parseElems_parseMembers.induct)
  case (1 nest s)
  obtain c t where ct: "skipSpace s = c # t" "length t < length s"
    using "1.prems" skipSpace_Cons_length [of s] by (subst (asm) parseValue.simps) (auto split: list.splits)
  note len = skipSpace_tl_length [of t] scanChars_length [of t] scanNumber_length [of "c # t"]
  note IH = "1.IH" [OF ct(1)]
  show ?case
    using "1.prems" ct len IH unfolding parseValue.simps [of nest s]
    by (fastforce split: if_splits)
next
  case (2 nest s)
  then show ?case unfolding parseElems.simps [of nest s]
    by (fastforce split: option.splits list.splits if_splits dest: skipSpace_Cons_length)
next
  case (3 nest s)
  then show ?case unfolding parseMembers.simps [of nest s]
    by (fastforce split: option.splits list.splits if_splits dest: skipSpace_Cons_length)
qed
text \<open>The length tests of the recursion are never the reason for a failure.\<close>

lemma parseElems_step:
  "parseElems nest s =
     (case parseValue nest s of
        None \<Rightarrow> None
      | Some (v, r) \<Rightarrow>
          (case skipSpace r of
             [] \<Rightarrow> None
           | c # t \<Rightarrow>
               if c = CHR '']'' then Some ([v], t)
               else if c = CHR '','' then map_option (\<lambda>(vs, r). (v # vs, r)) (parseElems nest t)
               else None))"
  unfolding parseElems.simps [of nest s]
  by (auto split: option.splits list.splits dest!: parse_length(1) skipSpace_Cons_length)

lemma parseMembers_step:
  "parseMembers nest s =
     (if \<not> HasPrefix (skipSpace s) [CHR 0x22] then None
      else case scanChars (tl (skipSpace s)) of
        None \<Rightarrow> None
      | Some (raw, r) \<Rightarrow>
          if \<not> HasPrefix (skipSpace r) '':'' then None
          else (case parseValue nest (tl (skipSpace r)) of
             None \<Rightarrow> None
           | Some (v, r) \<Rightarrow>
               (case skipSpace r of
                  [] \<Rightarrow> None
                | c # t \<Rightarrow>
                    if c = CHR ''}'' then Some ([(unquoteBytes raw, v)], t)
                    else if c = CHR '',''
                    then map_option (\<lambda>(kvs, r). ((unquoteBytes raw, v) # kvs, r)) (parseMembers nest t)
                    else None)))"
proof -
  have len: "length (tl (skipSpace r)) < length s"
    if "HasPrefix (skipSpace s) [CHR 0x22]" "scanChars (tl (skipSpace s)) = Some (raw, r)"
      "HasPrefix (skipSpace r) '':''" for raw r
    using skipSpace_tl_length [OF that(1)] scanChars_length [OF that(2)] skipSpace_tl_length [OF that(3)]
    by linarith
  show ?thesis
    unfolding parseMembers.simps [of nest s]
    by (auto split: option.splits list.splits dest!: parse_length(1) skipSpace_Cons_length dest: len)
qed

end
