(* ===== verification/Cbor.thy ===== *)
theory Cbor
  imports GoFloat GoTime GoUtf8
begin

text \<open>
  The single-pass CBOR to JSON converter of \<^verbatim>\<open>ingest/cbor.go\<close>: it reads one CBOR value, writes
  it as JSON, and on the way picks up the top-level \<^verbatim>\<open>createdAt\<close> and every DID or AT-URI. The
  reader is the list of bytes not yet read. Header decoding (\<^verbatim>\<open>cbor-gen\<close>), CID decoding
  (\<^verbatim>\<open>go-cid\<close>) and TID parsing (\<^verbatim>\<open>indigo\<close>) are third-party code and come in through the record
  \<open>cbor_lib\<close>. Reuse of the scratch buffers is not modelled: each use overwrites what it reads.
\<close>

section \<open>Data\<close>

record backlink =
  bl_Ref :: string
  bl_RefType :: string
  bl_Path :: string

record cbor_result =
  res_JSON :: string
  res_CreatedAt :: gotime
  res_Backlinks :: "backlink list"

text \<open>
  Third-party functions: a header is its major type, its argument and the bytes after it, and
  \<^const>\<open>None\<close> is an error; \<open>castCID\<close> is \<^verbatim>\<open>cid.Cast\<close> followed by \<^verbatim>\<open>String\<close>.
\<close>

record cbor_lib =
  readHeader :: "string \<Rightarrow> (nat \<times> uint64 \<times> string) option"
  castCID :: "string \<Rightarrow> string option"
  parseTID :: "string \<Rightarrow> gotime option"

datatype cbor_error =
    ReadError
  | StringLength int
  | BytesLength int
  | ArrayLength uint64
  | MapLength uint64
  | MapKeyType nat
  | CIDTagType nat
  | CIDCast
  | OutOfFuel

abbreviation (input) MajUnsignedInt :: nat where "MajUnsignedInt \<equiv> 0"
abbreviation (input) MajNegativeInt :: nat where "MajNegativeInt \<equiv> 1"
abbreviation (input) MajByteString :: nat where "MajByteString \<equiv> 2"
abbreviation (input) MajTextString :: nat where "MajTextString \<equiv> 3"
abbreviation (input) MajArray :: nat where "MajArray \<equiv> 4"
abbreviation (input) MajMap :: nat where "MajMap \<equiv> 5"
abbreviation (input) MajTag :: nat where "MajTag \<equiv> 6"
abbreviation (input) MajOther :: nat where "MajOther \<equiv> 7"

definition maxCBORStringLength :: int where "maxCBORStringLength = 10 * 1024 * 1024"
definition maxCBORCollectionLength :: uint64 where "maxCBORCollectionLength = 1000000"

definition prefixDIDPLC :: string where "prefixDIDPLC = ''did:plc:''"
definition prefixDIDWeb :: string where "prefixDIDWeb = ''did:web:''"
definition prefixATURI :: string where "prefixATURI = ''at://''"

section \<open>References\<close>

definition isDIDBytes :: "string \<Rightarrow> bool" where
  "isDIDBytes b \<longleftrightarrow> HasPrefix b prefixDIDPLC \<or> HasPrefix b prefixDIDWeb"

definition isATURIBytes :: "string \<Rightarrow> bool" where
  "isATURIBytes b \<longleftrightarrow> HasPrefix b prefixATURI"

definition classifyRef :: "string \<Rightarrow> string" where
  "classifyRef s = (if HasPrefix s ''at://'' then ''uri'' else ''did'')"

section \<open>Reading\<close>

text \<open>\<^verbatim>\<open>io.ReadFull\<close> of \<open>n\<close> bytes.\<close>

definition readFull :: "nat \<Rightarrow> string \<Rightarrow> cbor_error + string \<times> string" where
  "readFull n rest = (if n \<le> length rest then Inr (take n rest, drop n rest) else Inl ReadError)"

definition readStringToBuffer :: "string \<Rightarrow> int \<Rightarrow> cbor_error + string \<times> string" where
  "readStringToBuffer rest len =
     (if len = 0 then Inr ([], rest)
      else if len < 0 \<or> len > maxCBORStringLength then Inl (StringLength len)
      else readFull (nat len) rest)"

definition readBytes :: "string \<Rightarrow> int \<Rightarrow> cbor_error + string \<times> string" where
  "readBytes rest len =
     (if len = 0 then Inr ([], rest)
      else if len < 0 \<or> len > maxCBORStringLength then Inl (BytesLength len)
      else readFull (nat len) rest)"

definition getHeader :: "cbor_lib \<Rightarrow> string \<Rightarrow> cbor_error + nat \<times> uint64 \<times> string" where
  "getHeader lib rest = (case readHeader lib rest of None \<Rightarrow> Inl ReadError | Some h \<Rightarrow> Inr h)"

text \<open>\<^verbatim>\<open>int(extra)\<close> reinterprets the 64 bits as signed.\<close>

definition readMapKey :: "cbor_lib \<Rightarrow> string \<Rightarrow> cbor_error + string \<times> string" where
  "readMapKey lib rest =
     andThen (getHeader lib rest) (\<lambda>(maj, extra, rest).
       if maj \<noteq> MajTextString then Inl (MapKeyType maj)
       else readStringToBuffer rest (sint extra))"

section \<open>Writing JSON strings\<close>

definition hexDigit :: "nat \<Rightarrow> char" where
  "hexDigit d = (if d < 10 then char_of (48 + d) else char_of (87 + d))"

text \<open>A string between double quotes, for the literals of the source.\<close>

definition quoted :: "string \<Rightarrow> string" where
  "quoted s = [CHR 0x22] @ s @ [CHR 0x22]"

text \<open>\<^verbatim>\<open>\u%04x\<close>; used for values below 32 only.\<close>

definition escapeU :: "nat \<Rightarrow> string" where
  "escapeU n = [CHR 0x5C, CHR ''u'', hexDigit (n div 4096 mod 16), hexDigit (n div 256 mod 16),
                hexDigit (n div 16 mod 16), hexDigit (n mod 16)]"

definition escapeByte :: "char \<Rightarrow> string" where
  "escapeByte b =
     (if b = CHR 0x22 then [CHR 0x5C, CHR 0x22]
      else if b = CHR 0x5C then [CHR 0x5C, CHR 0x5C]
      else if b = CHR 0x0A then [CHR 0x5C, CHR ''n'']
      else if b = CHR 0x0D then [CHR 0x5C, CHR ''r'']
      else if b = CHR 0x09 then [CHR 0x5C, CHR ''t'']
      else if b = CHR 0x08 then [CHR 0x5C, CHR ''b'']
      else if b = CHR 0x0C then [CHR 0x5C, CHR ''f'']
      else if of_char b < (32::nat) then escapeU (of_char b)
      else [b])"

definition writeJSONStringBytes :: "string \<Rightarrow> string" where
  "writeJSONStringBytes s = [CHR 0x22] @ concat (map escapeByte s) @ [CHR 0x22]"

definition escapeRune :: "nat \<Rightarrow> string" where
  "escapeRune r =
     (if r = 34 then [CHR 0x5C, CHR 0x22]
      else if r = 92 then [CHR 0x5C, CHR 0x5C]
      else if r = 10 then [CHR 0x5C, CHR ''n'']
      else if r = 13 then [CHR 0x5C, CHR ''r'']
      else if r = 9 then [CHR 0x5C, CHR ''t'']
      else if r = 8 then [CHR 0x5C, CHR ''b'']
      else if r = 12 then [CHR 0x5C, CHR ''f'']
      else if r < 32 then escapeU r
      else encodeRune r)"

definition writeJSONString :: "string \<Rightarrow> string" where
  "writeJSONString s = [CHR 0x22] @ concat (map escapeRune (runes s)) @ [CHR 0x22]"

section \<open>Base64\<close>

definition base64Alphabet :: string where
  "base64Alphabet = ''ABCDEFGHIJKLMNOPQRSTUVWXYZabcdefghijklmnopqrstuvwxyz0123456789+/''"

definition b64 :: "nat \<Rightarrow> char" where
  "b64 n = base64Alphabet ! (n mod 64)"

text \<open>\<^verbatim>\<open>base64.StdEncoding.EncodeToString\<close>, with padding.\<close>

fun EncodeToString :: "string \<Rightarrow> string" where
  "EncodeToString [] = []"
| "EncodeToString [a] =
     (let n = of_char a * 65536 in [b64 (n div 262144), b64 (n div 4096), CHR ''='', CHR ''=''])"
| "EncodeToString [a, b] =
     (let n = of_char a * 65536 + of_char b * 256
      in [b64 (n div 262144), b64 (n div 4096), b64 (n div 64), CHR ''=''])"
| "EncodeToString (a # b # c # s) =
     (let n = of_char a * 65536 + of_char b * 256 + of_char c
      in [b64 (n div 262144), b64 (n div 4096), b64 (n div 64), b64 n] @ EncodeToString s)"

section \<open>Floats and simple values\<close>

text \<open>
  The loops that double and halve are exact on these values, so the result is the exact rational.
  Exactly one of the two loops runs at most; truncated subtraction is their trip count.
\<close>

definition float16ToFloat64 :: "string \<Rightarrow> float64" where
  "float16ToFloat64 b =
     (let bits = of_char (b ! 0) * 256 + of_char (b ! 1) :: nat;
          sign = bits div 32768 mod 2; ex = bits div 1024 mod 32; frac = bits mod 1024
      in if ex = 0 then
           Finite (sign = 1) (if frac = 0 then 0 else of_nat frac / 1024 * (1 / 16384))
         else if ex = 31 then (if frac = 0 then Inf (sign = 1) else NaN)
         else Finite (sign = 1) ((1 + of_nat frac / 1024) * 2 ^ (ex - 15) / 2 ^ (15 - ex)))"

definition bigEndian :: "string \<Rightarrow> nat" where
  "bigEndian s = foldl (\<lambda>a c. a * 256 + of_char c) 0 s"

definition writeJSONFloat :: "float64 \<Rightarrow> string" where
  "writeJSONFloat f =
     (case f of NaN \<Rightarrow> ''null'' | Inf _ \<Rightarrow> ''null'' | Finite s r \<Rightarrow> FormatFloat s r)"

definition writeOtherAsJSON :: "uint64 \<Rightarrow> string \<Rightarrow> cbor_error + string \<times> string" where
  "writeOtherAsJSON extra rest =
     (if extra = 20 then Inr (''false'', rest)
      else if extra = 21 then Inr (''true'', rest)
      else if extra = 22 \<or> extra = 23 then Inr (''null'', rest)
      else if extra = 25 then
        andThen (readFull 2 rest) (\<lambda>(buf, rest). Inr (writeJSONFloat (float16ToFloat64 buf), rest))
      else if extra = 26 then
        andThen (readFull 4 rest)
          (\<lambda>(buf, rest). Inr (writeJSONFloat (Float32frombits (of_nat (bigEndian buf))), rest))
      else if extra = 27 then
        andThen (readFull 8 rest)
          (\<lambda>(buf, rest). Inr (writeJSONFloat (Float64frombits (of_nat (bigEndian buf))), rest))
      else Inr (FormatUint (unat extra), rest))"

definition writeNegativeInt :: "uint64 \<Rightarrow> string" where
  "writeNegativeInt extra =
     (if unat extra > 2 ^ 63 - 1 then
        (if unat extra = 2 ^ 64 - 1 then ''-18446744073709551616''
         else ''-'' @ FormatUint (unat (extra + 1)))
      else FormatInt (- 1 - sint extra))"

text \<open>An ATProto CID link carries a leading zero byte.\<close>

definition stripCIDPrefix :: "string \<Rightarrow> string" where
  "stripCIDPrefix b = (if length b > 1 \<and> b ! 0 = CHR 0x00 then drop 1 b else b)"

definition writeCIDAsJSON :: "cbor_lib \<Rightarrow> string \<Rightarrow> cbor_error + string \<times> string" where
  "writeCIDAsJSON lib rest =
     andThen (getHeader lib rest) (\<lambda>(maj, extra, rest).
       if maj \<noteq> MajByteString then Inl (CIDTagType maj)
       else andThen (readBytes rest (sint extra)) (\<lambda>(cidBytes, rest).
         case castCID lib (stripCIDPrefix cidBytes) of
           None \<Rightarrow> Inl CIDCast
         | Some c \<Rightarrow> Inr (''{'' @ quoted ''$link'' @ '':'' @ quoted c @ ''}'', rest)))"

section \<open>The converter\<close>

record jstate =
  jrest :: string
  jout :: string
  jcreated :: string
  jlinks :: "backlink list"

definition emit :: "string \<Rightarrow> jstate \<Rightarrow> jstate" where
  "emit s st = st\<lparr>jout := jout st @ s\<rparr>"

definition emitRead :: "string \<times> string \<Rightarrow> jstate \<Rightarrow> jstate" where
  "emitRead p st = st\<lparr>jout := jout st @ fst p, jrest := snd p\<rparr>"

text \<open>The text-string case after the string is read: escape it, keep \<^verbatim>\<open>createdAt\<close>, note a reference.\<close>

definition noteText :: "string \<Rightarrow> string \<times> string \<Rightarrow> jstate \<Rightarrow> jstate" where
  "noteText path p st =
     (let strBuf = fst p;
          st1 = st\<lparr>jrest := snd p, jout := jout st @ writeJSONStringBytes strBuf\<rparr>;
          st2 = (if path = ''createdAt'' then st1\<lparr>jcreated := strBuf\<rparr> else st1)
      in if isDIDBytes strBuf \<or> isATURIBytes strBuf
         then st2\<lparr>jlinks := jlinks st2 @
                 [\<lparr>bl_Ref = strBuf, bl_RefType = classifyRef strBuf, bl_Path = path\<rparr>]\<rparr>
         else st2)"

definition valuePath :: "string \<Rightarrow> string \<Rightarrow> string" where
  "valuePath path key = (if path \<noteq> [] then path @ ''.'' @ key else key)"

text \<open>
  One unit of fuel per nesting level; \<open>writeElems\<close> and \<open>writeEntries\<close> are the array and map
  loops, \<open>i\<close> the loop index and the last-but-one argument the iterations left.
\<close>

function (sequential)
  writeValueAsJSON :: "cbor_lib \<Rightarrow> nat \<Rightarrow> string \<Rightarrow> jstate \<Rightarrow> cbor_error + jstate" and
  writeElems :: "cbor_lib \<Rightarrow> nat \<Rightarrow> string \<Rightarrow> nat \<Rightarrow> nat \<Rightarrow> jstate \<Rightarrow> cbor_error + jstate" and
  writeEntries :: "cbor_lib \<Rightarrow> nat \<Rightarrow> string \<Rightarrow> nat \<Rightarrow> nat \<Rightarrow> jstate \<Rightarrow> cbor_error + jstate"
where
  "writeValueAsJSON lib 0 path st = Inl OutOfFuel"
| "writeValueAsJSON lib (Suc f) path st =
     andThen (getHeader lib (jrest st)) (\<lambda>(maj, extra, rest).
       let st = st\<lparr>jrest := rest\<rparr> in
       if maj = MajUnsignedInt then Inr (emit (FormatUint (unat extra)) st)
       else if maj = MajNegativeInt then Inr (emit (writeNegativeInt extra) st)
       else if maj = MajTextString then
         andThen (readStringToBuffer rest (sint extra)) (\<lambda>p. Inr (noteText path p st))
       else if maj = MajByteString then
         andThen (readBytes rest (sint extra)) (\<lambda>(byteData, rest).
           Inr (emitRead (''{'' @ quoted ''$bytes'' @ '':'' @ quoted (EncodeToString byteData) @ ''}'', rest) st))
       else if maj = MajArray then
         (if extra > maxCBORCollectionLength then Inl (ArrayLength extra)
          else andThen (writeElems lib f path 0 (unat extra) (emit ''['' st))
                 (\<lambda>st. Inr (emit '']'' st)))
       else if maj = MajMap then
         (if extra > maxCBORCollectionLength then Inl (MapLength extra)
          else andThen (writeEntries lib f path 0 (unat extra) (emit ''{'' st))
                 (\<lambda>st. Inr (emit ''}'' st)))
       else if maj = MajTag then
         (if extra = 42 then andThen (writeCIDAsJSON lib rest) (\<lambda>p. Inr (emitRead p st))
          else writeValueAsJSON lib f path st)
       else if maj = MajOther then
         andThen (writeOtherAsJSON extra rest) (\<lambda>p. Inr (emitRead p st))
       else Inr st)"
| "writeElems lib f path i 0 st = Inr st"
| "writeElems lib f path i (Suc n) st =
     andThen (writeValueAsJSON lib f (path @ ''[]'') (if i > 0 then emit '','' st else st))
       (\<lambda>st. writeElems lib f path (Suc i) n st)"
| "writeEntries lib f path i 0 st = Inr st"
| "writeEntries lib f path i (Suc n) st =
     (let st = (if i > 0 then emit '','' st else st) in
      andThen (readMapKey lib (jrest st)) (\<lambda>(key, rest).
        andThen (writeValueAsJSON lib f (valuePath path key)
                   (emit '':'' (emitRead (writeJSONString key, rest) st)))
          (\<lambda>st. writeEntries lib f path (Suc i) n st)))"
  by pat_completeness auto
termination
  by (relation "measures
        [\<lambda>x. case x of Inl (_, f, _) \<Rightarrow> f | Inr (Inl (_, f, _)) \<Rightarrow> f | Inr (Inr (_, f, _)) \<Rightarrow> f,
         \<lambda>x. case x of Inl _ \<Rightarrow> 0 | Inr (Inl (_, _, _, _, n, _)) \<Rightarrow> Suc n
                  | Inr (Inr (_, _, _, _, n, _)) \<Rightarrow> Suc n]") auto

definition parseCreatedAt :: "cbor_lib \<Rightarrow> gotime \<Rightarrow> string \<Rightarrow> string \<Rightarrow> gotime" where
  "parseCreatedAt lib now createdAt rkey =
     (case (if createdAt \<noteq> []
            then (case parseTime False createdAt of
                    Some t \<Rightarrow> Some t
                  | None \<Rightarrow> parseTime True createdAt)
            else None) of
        Some t \<Rightarrow> t
      | None \<Rightarrow> (case parseTID lib rkey of Some t \<Rightarrow> t | None \<Rightarrow> now))"

definition jinit :: "string \<Rightarrow> jstate" where
  "jinit data = \<lparr>jrest = data, jout = [], jcreated = [], jlinks = []\<rparr>"

text \<open>Every nesting level reads at least one header byte, so \<open>length + 1\<close> levels are enough.\<close>

definition FastCBORToJSON :: "cbor_lib \<Rightarrow> gotime \<Rightarrow> string \<Rightarrow> string \<Rightarrow> cbor_result" where
  "FastCBORToJSON lib now data rkey =
     (case writeValueAsJSON lib (Suc (length data)) [] (jinit data) of
        Inl _ \<Rightarrow> \<lparr>res_JSON = ''{}'', res_CreatedAt = parseCreatedAt lib now [] rkey, res_Backlinks = []\<rparr>
      | Inr st \<Rightarrow> \<lparr>res_JSON = jout st, res_CreatedAt = parseCreatedAt lib now (jcreated st) rkey,
                   res_Backlinks = jlinks st\<rparr>)"

end
