(* ===== verification/CborSpec.thy ===== *)
theory CborSpec
  imports Cbor
begin

text \<open>
  What the converter of \<open>Cbor\<close> computes. The reference reads the input into a tree (\<open>decodeValue\<close>)
  and then, separately, prints the tree (\<open>render\<close>), lists its references (\<open>refs\<close>) and finds its
  \<^verbatim>\<open>createdAt\<close> (\<open>createdOf\<close>). The single pass is shown equal to the three passes, and never to run
  out of fuel when the header reader consumes at least one byte.
\<close>

section \<open>Reference\<close>

datatype cval =
    CUint uint64
  | CNeg uint64
  | CText string
  | CBytes string
  | CArr "cval list"
  | CMap "(string \<times> cval) list"
  | CTagged cval
  | CRaw string
  | CNothing

primrec interCommas :: "nat \<Rightarrow> string list \<Rightarrow> string" where
  "interCommas i [] = []"
| "interCommas i (s # ss) = (if i > 0 then '','' else []) @ s @ interCommas (Suc i) ss"

fun render :: "cval \<Rightarrow> string" where
  "render (CUint n) = FormatUint (unat n)"
| "render (CNeg n) = writeNegativeInt n"
| "render (CText s) = writeJSONStringBytes s"
| "render (CBytes b) = ''{'' @ quoted ''$bytes'' @ '':'' @ quoted (EncodeToString b) @ ''}''"
| "render (CArr vs) = ''['' @ interCommas 0 (map render vs) @ '']''"
| "render (CMap kvs) =
     ''{'' @ interCommas 0 (map (\<lambda>kv. writeJSONString (fst kv) @ '':'' @ render (snd kv)) kvs) @ ''}''"
| "render (CTagged v) = render v"
| "render (CRaw s) = s"
| "render CNothing = []"

definition textRefs :: "string \<Rightarrow> string \<Rightarrow> backlink list" where
  "textRefs path s =
     (if isDIDBytes s \<or> isATURIBytes s
      then [\<lparr>bl_Ref = s, bl_RefType = classifyRef s, bl_Path = path\<rparr>] else [])"

fun refs :: "string \<Rightarrow> cval \<Rightarrow> backlink list" where
  "refs path (CText s) = textRefs path s"
| "refs path (CArr vs) = concat (map (refs (path @ ''[]'')) vs)"
| "refs path (CMap kvs) = concat (map (\<lambda>kv. refs (valuePath path (fst kv)) (snd kv)) kvs)"
| "refs path (CTagged v) = refs path v"
| "refs path _ = []"

text \<open>The texts found at path \<^verbatim>\<open>createdAt\<close>, in order; the last one is kept.\<close>

fun createdTexts :: "string \<Rightarrow> cval \<Rightarrow> string list" where
  "createdTexts path (CText s) = (if path = ''createdAt'' then [s] else [])"
| "createdTexts path (CArr vs) = concat (map (createdTexts (path @ ''[]'')) vs)"
| "createdTexts path (CMap kvs) = concat (map (\<lambda>kv. createdTexts (valuePath path (fst kv)) (snd kv)) kvs)"
| "createdTexts path (CTagged v) = createdTexts path v"
| "createdTexts path _ = []"

function (sequential)
  decodeValue :: "cbor_lib \<Rightarrow> nat \<Rightarrow> string \<Rightarrow> cbor_error + cval \<times> string" and
  decodeElems :: "cbor_lib \<Rightarrow> nat \<Rightarrow> nat \<Rightarrow> string \<Rightarrow> cbor_error + cval list \<times> string" and
  decodeEntries :: "cbor_lib \<Rightarrow> nat \<Rightarrow> nat \<Rightarrow> string \<Rightarrow> cbor_error + (string \<times> cval) list \<times> string"
where
  "decodeValue lib 0 rest = Inl OutOfFuel"
| "decodeValue lib (Suc f) rest =
     andThen (getHeader lib rest) (\<lambda>(maj, extra, rest).
       if maj = MajUnsignedInt then Inr (CUint extra, rest)
       else if maj = MajNegativeInt then Inr (CNeg extra, rest)
       else if maj = MajTextString then
         andThen (readStringToBuffer rest (sint extra)) (\<lambda>p. Inr (CText (fst p), snd p))
       else if maj = MajByteString then
         andThen (readBytes rest (sint extra)) (\<lambda>p. Inr (CBytes (fst p), snd p))
       else if maj = MajArray then
         (if extra > maxCBORCollectionLength then Inl (ArrayLength extra)
          else andThen (decodeElems lib f (unat extra) rest) (\<lambda>p. Inr (CArr (fst p), snd p)))
       else if maj = MajMap then
         (if extra > maxCBORCollectionLength then Inl (MapLength extra)
          else andThen (decodeEntries lib f (unat extra) rest) (\<lambda>p. Inr (CMap (fst p), snd p)))
       else if maj = MajTag then
         (if extra = 42 then andThen (writeCIDAsJSON lib rest) (\<lambda>p. Inr (CRaw (fst p), snd p))
          else andThen (decodeValue lib f rest) (\<lambda>p. Inr (CTagged (fst p), snd p)))
       else if maj = MajOther then
         andThen (writeOtherAsJSON extra rest) (\<lambda>p. Inr (CRaw (fst p), snd p))
       else Inr (CNothing, rest))"
| "decodeElems lib f 0 rest = Inr ([], rest)"
| "decodeElems lib f (Suc n) rest =
     andThen (decodeValue lib f rest) (\<lambda>p.
       andThen (decodeElems lib f n (snd p)) (\<lambda>q. Inr (fst p # fst q, snd q)))"
| "decodeEntries lib f 0 rest = Inr ([], rest)"
| "decodeEntries lib f (Suc n) rest =
     andThen (readMapKey lib rest) (\<lambda>k.
       andThen (decodeValue lib f (snd k)) (\<lambda>p.
         andThen (decodeEntries lib f n (snd p)) (\<lambda>q. Inr ((fst k, fst p) # fst q, snd q))))"
  by pat_completeness auto
termination
  by (relation "measures
        [\<lambda>x. case x of Inl (_, f, _) \<Rightarrow> f | Inr (Inl (_, f, _)) \<Rightarrow> f | Inr (Inr (_, f, _)) \<Rightarrow> f,
         \<lambda>x. case x of Inl _ \<Rightarrow> 0 | Inr (Inl (_, _, n, _)) \<Rightarrow> Suc n
                  | Inr (Inr (_, _, n, _)) \<Rightarrow> Suc n]") auto

section \<open>One pass is three passes\<close>

definition lastOr :: "string \<Rightarrow> string list \<Rightarrow> string" where
  "lastOr d ss = (if ss = [] then d else last ss)"

lemma lastOr_append: "lastOr d (xs @ ys) = lastOr (lastOr d xs) ys"
  by (simp add: lastOr_def)

lemma lastOr_Nil [simp]: "lastOr d [] = d"
  by (simp add: lastOr_def)

definition extend :: "string \<Rightarrow> string \<Rightarrow> string list \<Rightarrow> backlink list \<Rightarrow> jstate \<Rightarrow> jstate" where
  "extend rest out cs bs st =
     st\<lparr>jrest := rest, jout := jout st @ out, jcreated := lastOr (jcreated st) cs,
        jlinks := jlinks st @ bs\<rparr>"

lemma extend_jrest [simp]: "jrest (extend r o' cs bs st) = r"
  by (simp add: extend_def)

lemma extend_extend:
  "extend r2 o2 cs2 bs2 (extend r1 o1 cs1 bs1 st) = extend r2 (o1 @ o2) (cs1 @ cs2) (bs1 @ bs2) st"
  by (simp add: extend_def lastOr_append)

lemma emit_extend: "emit s st = extend (jrest st) s [] [] st"
  by (simp add: emit_def extend_def)

lemma emitRead_extend: "emitRead p st = extend (snd p) (fst p) [] [] st"
  by (simp add: emitRead_def extend_def)

lemma rest_extend: "st\<lparr>jrest := r\<rparr> = extend r [] [] [] st"
  by (simp add: extend_def)

lemma noteText_extend:
  "noteText path p st =
     extend (snd p) (writeJSONStringBytes (fst p)) (createdTexts path (CText (fst p)))
       (textRefs path (fst p)) st"
  by (simp add: noteText_def extend_def textRefs_def lastOr_def Let_def)

lemmas extend_rules = emit_extend emitRead_extend rest_extend noteText_extend extend_extend

text \<open>Lifting a decoding result to the writer's state.\<close>

definition spread :: "(string \<times> 'v \<Rightarrow> jstate) \<Rightarrow> cbor_error + 'v \<times> string \<Rightarrow> cbor_error + jstate" where
  "spread g m = andThen m (\<lambda>p. Inr (g (snd p, fst p)))"

lemma spread_simps [simp]:
  "spread g (Inl e) = Inl e" "spread g (Inr p) = Inr (g (snd p, fst p))"
  by (simp_all add: spread_def)

lemma spread_andThen:
  "spread g (andThen m k) = andThen m (\<lambda>x. spread g (k x))"
  by (cases m) simp_all

abbreviation elemOut :: "nat \<Rightarrow> cval list \<Rightarrow> string" where
  "elemOut i vs \<equiv> interCommas i (map render vs)"

abbreviation entryOut :: "nat \<Rightarrow> (string \<times> cval) list \<Rightarrow> string" where
  "entryOut i kvs \<equiv> interCommas i (map (\<lambda>kv. writeJSONString (fst kv) @ '':'' @ render (snd kv)) kvs)"

lemma single_pass:
  "writeValueAsJSON lib f path st =
     spread (\<lambda>(r, v). extend r (render v) (createdTexts path v) (refs path v) st)
       (decodeValue lib f (jrest st))"
  "writeElems lib f path i n st =
     spread (\<lambda>(r, vs). extend r (elemOut i vs) (createdTexts path (CArr vs)) (refs path (CArr vs)) st)
       (decodeElems lib f n (jrest st))"
  "writeEntries lib f path i n st =
     spread (\<lambda>(r, kvs). extend r (entryOut i kvs) (createdTexts path (CMap kvs)) (refs path (CMap kvs)) st)
       (decodeEntries lib f n (jrest st))"
proof (induction lib f path st and lib f path i n st and lib f path i n st
    rule: writeValueAsJSON_writeElems_writeEntries.induct)
  case (1 lib path st)
  then show ?case by simp
next
  case (2 lib f path st)
  show ?case
  proof (cases "getHeader lib (jrest st)")
    case (Inl e)
    then show ?thesis by simp
  next
    case (Inr h)
    obtain maj extra rest where h: "h = (maj, extra, rest)" by (cases h)
    note hd = Inr [unfolded h]
    note IH = "2.IH" [OF hd refl refl refl]
    consider "maj = MajArray" | "maj = MajMap" | "maj = MajTag" | "maj \<notin> {MajArray, MajMap, MajTag}"
      by blast
    then show ?thesis
    proof cases
      case 1
      with hd IH(1) show ?thesis by (simp add: Let_def spread_def andThen_assoc extend_rules)
    next
      case 2
      with hd IH(2) show ?thesis by (simp add: Let_def spread_def andThen_assoc extend_rules)
    next
      case 3
      with hd IH(3) show ?thesis
        by (cases "extra = 42") (simp_all add: Let_def spread_def andThen_assoc extend_rules)
    next
      case 4
      with hd show ?thesis
        by (auto simp: Let_def spread_def andThen_assoc extend_rules case_prod_unfold)
    qed
  qed
next
  case (3 lib f path i st)
  then show ?case by (simp add: extend_def)
next
  case (4 lib f path i n st)
  let ?st = "if i > 0 then emit '','' st else st"
  have r: "jrest ?st = jrest st" by (simp add: emit_def)
  show ?case
  proof (cases "decodeValue lib f (jrest st)")
    case (Inl e)
    with 4(1) r show ?thesis by (simp add: spread_def)
  next
    case (Inr p)
    with 4(1) r have v: "writeValueAsJSON lib f (path @ ''[]'') ?st =
        Inr (extend (snd p) (render (fst p)) (createdTexts (path @ ''[]'') (fst p))
              (refs (path @ ''[]'') (fst p)) ?st)"
      by (simp add: spread_def)
    show ?thesis
      using Inr v 4(2) [OF v]
      by (cases "decodeElems lib f n (snd p)") (auto simp: extend_rules)
  qed
next
  case (5 lib f path i st)
  then show ?case by (simp add: extend_def)
next
  case (6 lib f path i n st)
  let ?st = "if i > 0 then emit '','' st else st"
  have r: "jrest ?st = jrest st" by (simp add: emit_def)
  show ?case
  proof (cases "readMapKey lib (jrest st)")
    case (Inl e)
    with r show ?thesis by (simp add: Let_def)
  next
    case (Inr k)
    note key = Inr
    have k: "readMapKey lib (jrest ?st) = Inr (fst k, snd k)" using Inr r by simp
    note IH = 6(1) [OF refl k refl] and IH2 = 6(2) [OF refl k refl]
    let ?kst = "emit '':'' (emitRead (writeJSONString (fst k), snd k) ?st)"
    have rk: "jrest ?kst = snd k" by (simp add: emit_def emitRead_def)
    show ?thesis
    proof (cases "decodeValue lib f (snd k)")
      case (Inl e)
      with IH rk key r show ?thesis by (simp add: spread_def Let_def case_prod_unfold)
    next
      case (Inr p)
      with IH rk have v: "writeValueAsJSON lib f (valuePath path (fst k)) ?kst =
          Inr (extend (snd p) (render (fst p)) (createdTexts (valuePath path (fst k)) (fst p))
                (refs (valuePath path (fst k)) (fst p)) ?kst)"
        by (simp add: spread_def)
      show ?thesis
        using Inr key r v IH2 [OF v]
        by (cases "decodeEntries lib f n (snd p)")
           (auto simp: extend_rules Let_def case_prod_unfold)
    qed
  qed
qed

section \<open>Enough fuel\<close>

text \<open>What the converter needs of the header reader: it consumes at least the initial byte.\<close>

definition headerProgress :: "cbor_lib \<Rightarrow> bool" where
  "headerProgress lib \<longleftrightarrow>
     (\<forall>rest maj extra rest'. readHeader lib rest = Some (maj, extra, rest') \<longrightarrow> length rest' < length rest)"

lemma getHeader_progress:
  "headerProgress lib \<Longrightarrow> getHeader lib rest = Inr (maj, extra, rest') \<Longrightarrow> length rest' < length rest"
  by (auto simp: headerProgress_def getHeader_def split: option.splits)

lemma getHeader_fuel [simp]: "getHeader lib rest \<noteq> Inl OutOfFuel"
  by (auto simp: getHeader_def split: option.splits)

lemma read_shrinks:
  "readFull n rest = Inr (b, r) \<Longrightarrow> length r \<le> length rest"
  "readStringToBuffer rest k = Inr (b, r) \<Longrightarrow> length r \<le> length rest"
  "readBytes rest k = Inr (b, r) \<Longrightarrow> length r \<le> length rest"
  by (auto simp: readFull_def readStringToBuffer_def readBytes_def split: if_splits)

lemma read_fuel [simp]:
  "readFull n rest \<noteq> Inl OutOfFuel" "readStringToBuffer rest k \<noteq> Inl OutOfFuel"
  "readBytes rest k \<noteq> Inl OutOfFuel" "readMapKey lib rest \<noteq> Inl OutOfFuel"
  "writeCIDAsJSON lib rest \<noteq> Inl OutOfFuel" "writeOtherAsJSON extra rest \<noteq> Inl OutOfFuel"
  by (auto simp: readFull_def readStringToBuffer_def readBytes_def readMapKey_def writeCIDAsJSON_def
      writeOtherAsJSON_def andThen_Inl split: if_splits option.splits)

lemma key_shrinks:
  "headerProgress lib \<Longrightarrow> readMapKey lib rest = Inr (k, r) \<Longrightarrow> length r < length rest"
  by (auto simp: readMapKey_def andThen_Inr split: if_splits dest!: read_shrinks getHeader_progress)

lemma cid_shrinks:
  "headerProgress lib \<Longrightarrow> writeCIDAsJSON lib rest = Inr (o', r) \<Longrightarrow> length r \<le> length rest"
  by (auto simp: writeCIDAsJSON_def andThen_Inr split: if_splits option.splits
      dest!: read_shrinks getHeader_progress)

lemma other_shrinks: "writeOtherAsJSON extra rest = Inr (o', r) \<Longrightarrow> length r \<le> length rest"
  by (auto simp: writeOtherAsJSON_def andThen_Inr split: if_splits dest!: read_shrinks)

definition settles :: "nat \<Rightarrow> cbor_error + 'v \<times> string \<Rightarrow> bool" where
  "settles n m \<longleftrightarrow> m \<noteq> Inl OutOfFuel \<and> (\<forall>v r. m = Inr (v, r) \<longrightarrow> length r \<le> n)"

lemma settles_andThen:
  assumes "settles n m" "\<And>v r. m = Inr (v, r) \<Longrightarrow> length r \<le> n \<Longrightarrow> settles k (g (v, r))"
  shows "settles k (andThen m g)"
  using assms by (cases m) (auto simp: settles_def)

lemma settles_Inr [simp]: "settles n (Inr p) \<longleftrightarrow> length (snd p) \<le> n"
  by (cases p) (auto simp: settles_def)

lemma settles_mono: "settles n m \<Longrightarrow> n \<le> k \<Longrightarrow> settles k m"
  by (auto simp: settles_def)

lemma settles_reads:
  "settles (length rest) (readStringToBuffer rest k)" "settles (length rest) (readBytes rest k)"
  "settles (length rest) (writeOtherAsJSON extra rest)"
  "headerProgress lib \<Longrightarrow> settles (length rest) (writeCIDAsJSON lib rest)"
  "headerProgress lib \<Longrightarrow> settles (length rest - 1) (readMapKey lib rest)"
  by (auto simp: settles_def dest: read_shrinks other_shrinks cid_shrinks key_shrinks)

lemma settles_Inl [simp]: "settles n (Inl e) \<longleftrightarrow> e \<noteq> OutOfFuel"
  by (simp add: settles_def)

lemma settles_wrap:
  "settles k m \<Longrightarrow> k \<le> n \<Longrightarrow> settles n (andThen m (\<lambda>p. Inr (g (fst p), snd p)))"
  by (erule settles_andThen) simp

lemma enough_fuel_decode:
  assumes "headerProgress lib"
  shows
  "length rest < f \<Longrightarrow> settles (length rest - 1) (decodeValue lib f rest)"
  "length rest < f \<Longrightarrow> settles (length rest) (decodeElems lib f n rest)"
  "length rest < f \<Longrightarrow> settles (length rest) (decodeEntries lib f n rest)"
  using assms
proof (induction lib f rest and lib f n rest and lib f n rest
    rule: decodeValue_decodeElems_decodeEntries.induct)
  case (2 lib f rest)
  show ?case
  proof (cases "getHeader lib rest")
    case (Inl e)
    then show ?thesis using getHeader_fuel [of lib rest] by (auto simp: settles_def simp del: getHeader_fuel)
  next
    case (Inr h)
    obtain maj extra r where h: "h = (maj, extra, r)" by (cases h)
    note hd = Inr [unfolded h]
    have le: "length r < length rest" using getHeader_progress [OF "2.prems"(2) hd] .
    then have lt: "length r < f" using "2.prems"(1) by simp
    note IH = "2.IH" [OF hd refl refl]
    note rd = settles_reads(1-3) [of r] settles_reads(4,5) [OF "2.prems"(2), of r]
    have "settles (length r) (decodeValue lib (Suc f) rest)"
      using hd IH lt rd "2.prems"(2) by (auto intro: settles_wrap simp del: One_nat_def)
    then show ?thesis using le by (auto elim: settles_mono)
  qed
next
  case (4 lib f n rest)
  show ?case
    unfolding decodeElems.simps
  proof (rule settles_andThen)
    show "settles (length rest - 1) (decodeValue lib f rest)" using 4 by simp
    fix v r assume v: "decodeValue lib f rest = Inr (v, r)" and r: "length r \<le> length rest - 1"
    then have "settles (length r) (decodeElems lib f n r)" using 4 by auto
    with r show "settles (length rest) (andThen (decodeElems lib f n (snd (v, r)))
        (\<lambda>q. Inr (fst (v, r) # fst q, snd q)))"
      by (auto intro: settles_wrap)
  qed
next
  case (6 lib f n rest)
  show ?case
    unfolding decodeEntries.simps
  proof (rule settles_andThen)
    show "settles (length rest - 1) (readMapKey lib rest)" using 6 settles_reads(5) by simp
    fix k r assume k: "readMapKey lib rest = Inr (k, r)" and r: "length r \<le> length rest - 1"
    then have dv: "settles (length r - 1) (decodeValue lib f r)" using 6 by auto
    show "settles (length rest) (andThen (decodeValue lib f (snd (k, r))) (\<lambda>p.
         andThen (decodeEntries lib f n (snd p)) (\<lambda>q. Inr ((fst (k, r), fst p) # fst q, snd q))))"
    proof (rule settles_andThen)
      show "settles (length r - 1) (decodeValue lib f (snd (k, r)))" using dv by simp
      fix v r2 assume v: "decodeValue lib f (snd (k, r)) = Inr (v, r2)" and r2: "length r2 \<le> length r - 1"
      then have "settles (length r2) (decodeEntries lib f n r2)" using 6 k r by auto
      with r r2 show "settles (length rest) (andThen (decodeEntries lib f n (snd (v, r2)))
          (\<lambda>q. Inr ((fst (k, r), fst (v, r2)) # fst q, snd q)))"
        by (auto intro: settles_wrap)
    qed
  qed
qed (simp_all add: settles_def)

end
