(* ===== verification/CborJson.thy ===== *)
theory CborJson
  imports CborSpec GoJson
begin

text \<open>
  The converter's output is JSON. The grammar of RFC 8259 is given as inductive predicates over
  byte strings (bytes above 127 are plain string characters; UTF-8 validity is separate), and every
  piece the converter writes is derived in it. The section also holds the properties of
  \<^verbatim>\<open>FastCBORToJSON\<close>.
\<close>

section \<open>Grammar\<close>

definition plainChar :: "char \<Rightarrow> bool" where
  "plainChar c \<longleftrightarrow> 32 \<le> (of_char c :: nat) \<and> c \<noteq> CHR 0x22 \<and> c \<noteq> CHR 0x5C"

inductive jsonChars :: "string \<Rightarrow> bool" where
  jc_Nil: "jsonChars []"
| jc_plain: "plainChar c \<Longrightarrow> jsonChars s \<Longrightarrow> jsonChars (c # s)"
| jc_escape: "e \<in> {CHR 0x22, CHR 0x5C, CHR ''/'', CHR ''b'', CHR ''f'', CHR ''n'', CHR ''r'', CHR ''t''}
     \<Longrightarrow> jsonChars s \<Longrightarrow> jsonChars (CHR 0x5C # e # s)"
| jc_unicode: "isHex a \<Longrightarrow> isHex b \<Longrightarrow> isHex c \<Longrightarrow> isHex d \<Longrightarrow> jsonChars s
     \<Longrightarrow> jsonChars (CHR 0x5C # CHR ''u'' # a # b # c # d # s)"

definition jsonInt :: "string \<Rightarrow> bool" where
  "jsonInt ip \<longleftrightarrow> ip \<noteq> [] \<and> list_all isDigit ip \<and> (hd ip = CHR ''0'' \<longrightarrow> ip = ''0'')"

definition jsonFrac :: "string \<Rightarrow> bool" where
  "jsonFrac fp \<longleftrightarrow> fp = [] \<or> (\<exists>ds. fp = CHR ''.'' # ds \<and> ds \<noteq> [] \<and> list_all isDigit ds)"

inductive jsonValue :: "string \<Rightarrow> bool" and jsonElems :: "string \<Rightarrow> bool"
  and jsonMembers :: "string \<Rightarrow> bool" where
  jv_null: "jsonValue ''null''"
| jv_true: "jsonValue ''true''"
| jv_false: "jsonValue ''false''"
| jv_number: "jsonInt ip \<Longrightarrow> jsonFrac fp \<Longrightarrow> jsonValue (ip @ fp)"
| jv_negative: "jsonInt ip \<Longrightarrow> jsonFrac fp \<Longrightarrow> jsonValue (CHR ''-'' # ip @ fp)"
| jv_string: "jsonChars s \<Longrightarrow> jsonValue (quoted s)"
| jv_empty_array: "jsonValue ''[]''"
| jv_array: "jsonElems es \<Longrightarrow> jsonValue (''['' @ es @ '']'')"
| jv_empty_object: "jsonValue ''{}''"
| jv_object: "jsonMembers ms \<Longrightarrow> jsonValue (''{'' @ ms @ ''}'')"
| je_one: "jsonValue v \<Longrightarrow> jsonElems v"
| je_more: "jsonValue v \<Longrightarrow> jsonElems es \<Longrightarrow> jsonElems (v @ '','' @ es)"
| jm_one: "jsonChars k \<Longrightarrow> jsonValue v \<Longrightarrow> jsonMembers (quoted k @ '':'' @ v)"
| jm_more: "jsonChars k \<Longrightarrow> jsonValue v \<Longrightarrow> jsonMembers ms \<Longrightarrow>
     jsonMembers (quoted k @ '':'' @ v @ '','' @ ms)"

section \<open>Strings\<close>

lemma jsonChars_append: "jsonChars s \<Longrightarrow> jsonChars t \<Longrightarrow> jsonChars (s @ t)"
  by (induction rule: jsonChars.induct) (simp_all add: jsonChars.intros)

lemma jsonChars_concat: "(\<And>x. x \<in> set xs \<Longrightarrow> jsonChars (f x)) \<Longrightarrow> jsonChars (concat (map f xs))"
  by (induction xs) (simp_all add: jsonChars_append jc_Nil)

lemma jsonChars_plain: "list_all plainChar s \<Longrightarrow> jsonChars s"
  by (induction s) (simp_all add: jc_Nil jc_plain)

lemma jc_short:
  "e \<in> {CHR 0x22, CHR 0x5C, CHR ''/'', CHR ''b'', CHR ''f'', CHR ''n'', CHR ''r'', CHR ''t''}
     \<Longrightarrow> jsonChars [CHR 0x5C, e]"
  by (rule jc_escape [OF _ jc_Nil])

lemma isHex_hexDigit: "d < 16 \<Longrightarrow> isHex (hexDigit d)"
proof -
  assume d: "d < 16"
  then have "of_char (hexDigit d) = (if d < 10 then 48 + d else 87 + d)"
    by (simp add: hexDigit_def)
  with d show ?thesis by (simp add: isHex_def isDigit_def)
qed

lemma jsonChars_escapeU: "jsonChars (escapeU n)"
  unfolding escapeU_def by (intro jc_unicode jc_Nil isHex_hexDigit) simp_all

lemma jsonChars_escapeByte: "jsonChars (escapeByte b)"
  by (simp add: escapeByte_def jc_short jsonChars_escapeU jc_plain jc_Nil plainChar_def)

lemma plainChar_char_of:
  fixes n :: nat
  assumes "32 \<le> n" "n < 256" "n \<noteq> 34" "n \<noteq> 92"
  shows "plainChar (char_of n)"
proof -
  have n: "of_char (char_of n) = n" using assms(2) by simp
  then have "char_of n \<noteq> CHR 0x22" "char_of n \<noteq> CHR 0x5C"
    using assms(3,4) arg_cong [of "char_of n" _ "of_char :: char \<Rightarrow> nat"] by fastforce+
  with n assms(1) show ?thesis by (simp add: plainChar_def)
qed

lemma plain_high: "128 \<le> n \<Longrightarrow> n < 256 \<Longrightarrow> plainChar (char_of (n::nat))"
  by (rule plainChar_char_of) simp_all

lemma plain_cont: "plainChar (char_of (128 + x mod 64 :: nat))"
proof (rule plain_high)
  have "x mod 64 < 64" by simp
  then show "128 + x mod 64 < 256" by linarith
qed simp

lemma plain_encodeRune:
  assumes "32 \<le> r" "r \<noteq> 34" "r \<noteq> 92"
  shows "list_all plainChar (encodeRune r)"
proof -
  consider "r < 128" | "128 \<le> r" "r < 2048" | "(55296 \<le> r \<and> r \<le> 57343) \<or> 1114111 < r"
    | "2048 \<le> r" "r < 65536" "\<not> (55296 \<le> r \<and> r \<le> 57343)"
    | "65536 \<le> r" "r \<le> 1114111"
    by linarith
  then show ?thesis
  proof cases
    case 1
    with assms show ?thesis by (simp add: encodeRune_def plainChar_char_of)
  next
    case 2
    then have "192 + r div 64 < 256" by linarith
    with 2 show ?thesis by (simp add: encodeRune_def plain_cont plain_high)
  next
    case 3
    then have "2048 \<le> r" by linarith
    with 3 show ?thesis by (simp add: encodeRune_def plainChar_def)
  next
    case 4
    then have "224 + r div 4096 < 256" by linarith
    with 4 show ?thesis by (auto simp: encodeRune_def plain_cont plain_high)
  next
    case 5
    then have "240 + r div 262144 < 256" by linarith
    with 5 show ?thesis by (simp add: encodeRune_def plain_cont plain_high)
  qed
qed

lemma jsonChars_escapeRune: "jsonChars (escapeRune r)"
  by (simp add: escapeRune_def jc_short jsonChars_escapeU jsonChars_plain plain_encodeRune)

lemma writeJSONStringBytes_quoted: "\<exists>k. writeJSONStringBytes s = quoted k \<and> jsonChars k"
  by (intro exI [of _ "concat (map escapeByte s)"])
     (simp add: writeJSONStringBytes_def quoted_def jsonChars_concat jsonChars_escapeByte)

lemma writeJSONString_quoted: "\<exists>k. writeJSONString s = quoted k \<and> jsonChars k"
  by (intro exI [of _ "concat (map escapeRune (runes s))"])
     (simp add: writeJSONString_def quoted_def jsonChars_concat jsonChars_escapeRune)

lemma jv_text: "jsonValue (writeJSONStringBytes s)"
  using writeJSONStringBytes_quoted [of s] by (auto intro: jv_string)

lemma b64_plain: "plainChar (b64 n)"
proof -
  have "list_all plainChar base64Alphabet" by (simp add: base64Alphabet_def plainChar_def)
  moreover have "n mod 64 < length base64Alphabet" by (simp add: base64Alphabet_def)
  ultimately show ?thesis by (simp add: b64_def list_all_length)
qed

lemma EncodeToString_plain: "list_all plainChar (EncodeToString s)"
  by (induction s rule: EncodeToString.induct) (auto simp: Let_def b64_plain, simp_all add: plainChar_def)

section \<open>Numbers\<close>

lemma digitChar_0: "d < 10 \<Longrightarrow> digitChar d = CHR ''0'' \<longleftrightarrow> d = 0"
proof
  assume "d < 10" "digitChar d = CHR ''0''"
  then have "48 + d = (of_char CHR ''0'' :: nat)" by (metis of_char_digitChar)
  then show "d = 0" by simp
qed simp

lemma hd_FormatUint: "n \<noteq> 0 \<Longrightarrow> hd (FormatUint n) \<noteq> CHR ''0''"
proof (induction n rule: FormatUint.induct)
  case (1 n)
  show ?case
  proof (cases "n < 10")
    case True
    with 1 show ?thesis by (subst FormatUint.simps) (simp add: digitChar_0)
  next
    case False
    with 1 have "hd (FormatUint (n div 10)) \<noteq> CHR ''0''" by simp
    with False show ?thesis by (subst FormatUint.simps) simp
  qed
qed

lemma FormatUint_0 [simp]: "FormatUint 0 = ''0''"
  by (simp add: FormatUint.simps)

lemma jsonInt_FormatUint: "jsonInt (FormatUint n)"
  using hd_FormatUint [of n] by (cases "n = 0") (auto simp: jsonInt_def isDigit_def)

lemma jsonFrac_Nil [simp]: "jsonFrac []"
  by (simp add: jsonFrac_def)

lemma jv_FormatUint: "jsonValue (FormatUint n)"
  using jv_number [OF jsonInt_FormatUint jsonFrac_Nil] by simp

lemma jv_neg_FormatUint: "jsonValue (CHR ''-'' # FormatUint n)"
  using jv_negative [OF jsonInt_FormatUint jsonFrac_Nil] by simp

lemma jv_FormatInt: "jsonValue (FormatInt i)"
  by (simp add: FormatInt_def jv_FormatUint jv_neg_FormatUint)

lemma FormatInt_neg: "FormatInt (- int (Suc m)) = CHR ''-'' # FormatUint (Suc m)"
  by (simp add: FormatInt_def nat_add_distrib)

lemma writeNegativeInt_value: "writeNegativeInt n = FormatInt (- 1 - int (unat n))"
proof -
  have lit: "FormatUint 18446744073709551616 = ''18446744073709551616''"
    by (simp add: FormatUint.simps)
  have lt: "unat n < 2 ^ 64" by (rule unat_uint64_less)
  have neg: "FormatInt (- 1 - int (unat n)) = CHR ''-'' # FormatUint (Suc (unat n))"
  proof -
    have "- 1 - int (unat n) = - int (Suc (unat n))" by simp
    then show ?thesis by (simp only: FormatInt_neg)
  qed
  consider "unat n = 2 ^ 64 - 1" | "2 ^ 63 - 1 < unat n" "unat n < 2 ^ 64 - 1" | "unat n \<le> 2 ^ 63 - 1"
    using lt by linarith
  then show ?thesis
  proof cases
    case 1
    then have "Suc (unat n) = 18446744073709551616" by simp
    with 1 show ?thesis unfolding neg by (simp only: lit writeNegativeInt_def) simp
  next
    case 2
    then have "unat (n + 1) = Suc (unat n)" by (simp add: unat_word_ariths)
    with 2 show ?thesis unfolding neg by (simp add: writeNegativeInt_def)
  next
    case 3
    then have "sint n = int (unat n)" by (intro sint_uint64_small) simp
    with 3 show ?thesis by (simp add: writeNegativeInt_def)
  qed
qed

definition jsonNumber :: "string \<Rightarrow> bool" where
  "jsonNumber s \<longleftrightarrow> (\<exists>ip fp. s = ip @ fp \<and> jsonInt ip \<and> jsonFrac fp)"

lemma jsonNumberI: "jsonInt ip \<Longrightarrow> jsonFrac fp \<Longrightarrow> jsonNumber (ip @ fp)"
  by (auto simp: jsonNumber_def)

lemma jv_jsonNumber: "jsonNumber s \<Longrightarrow> jsonValue s \<and> jsonValue (CHR ''-'' # s)"
  by (auto simp: jsonNumber_def intro: jv_number jv_negative)

lemma jsonNumber_FormatUint: "jsonNumber (FormatUint c)"
  using jsonNumberI [OF jsonInt_FormatUint jsonFrac_Nil] by simp

lemma jsonNumber_placePoint: "jsonNumber (placePoint (c, x))"
proof (cases "0 \<le> x")
  case True
  have "jsonInt (FormatUint c @ replicate (nat x) CHR ''0'')" if "c \<noteq> 0"
    using that hd_FormatUint [of c] FormatUint_digits [of c]
    by (auto simp: jsonInt_def list_all_iff isDigit_def simp del: FormatUint_digits)
  then show ?thesis
    using True jsonNumberI [OF _ jsonFrac_Nil] jsonNumber_FormatUint [of 0]
    by (auto simp: placePoint_def Let_def)
next
  case False
  let ?ds = "FormatUint c" and ?f = "nat (- x)"
  have dig: "list_all isDigit ?ds" by simp
  show ?thesis
  proof (cases "?f < length ?ds")
    case True
    let ?k = "length ?ds - ?f"
    have k: "0 < ?k" "?k < length ?ds" using True False by auto
    have "c \<noteq> 0" using k by (cases "c = 0") auto
    then have "jsonInt (take ?k ?ds)"
      using hd_FormatUint k dig by (auto simp: jsonInt_def list_all_length hd_take)
    moreover have "jsonFrac (CHR ''.'' # drop ?k ?ds)"
      using k dig by (auto simp: jsonFrac_def list_all_length)
    ultimately show ?thesis
      using jsonNumberI [of "take ?k ?ds" "CHR ''.'' # drop ?k ?ds"] True False
      by (simp add: placePoint_def Let_def)
  next
    case f: False
    have "jsonInt ''0''" by (simp add: jsonInt_def isDigit_def)
    moreover have "jsonFrac (CHR ''.'' # replicate (?f - length ?ds) CHR ''0'' @ ?ds)"
      using dig by (auto simp: jsonFrac_def list_all_iff isDigit_def)
    ultimately show ?thesis
      using jsonNumberI f False by (fastforce simp: placePoint_def Let_def)
  qed
qed

lemma jv_FormatFloat: "jsonValue (FormatFloat neg r)"
proof -
  have "jsonNumber (if r = 0 then ''0'' else placePoint (shortestDecimal r))"
    using jsonNumber_FormatUint [of 0] jsonNumber_placePoint [of "fst (shortestDecimal r)" "snd (shortestDecimal r)"]
    by simp
  then show ?thesis using jv_jsonNumber by (auto simp: FormatFloat_def)
qed

section \<open>Documents\<close>

text \<open>
  Documented behaviour of the third-party code: the header reader consumes the initial byte and
  returns a three-bit major type, and the text of a CID needs no escaping (it is multibase text).
\<close>

definition wfLib :: "cbor_lib \<Rightarrow> bool" where
  "wfLib lib \<longleftrightarrow>
     headerProgress lib
     \<and> (\<forall>rest maj extra rest'. readHeader lib rest = Some (maj, extra, rest') \<longrightarrow> maj < 8)
     \<and> (\<forall>b c. castCID lib b = Some c \<longrightarrow> list_all plainChar c)"

lemma jv_writeJSONFloat: "jsonValue (writeJSONFloat f)"
  by (cases f) (simp_all add: writeJSONFloat_def jv_null jv_FormatFloat)

lemma jv_other: "writeOtherAsJSON extra rest = Inr (o', r) \<Longrightarrow> jsonValue o'"
  by (auto simp: writeOtherAsJSON_def andThen_Inr jv_null jv_true jv_false jv_FormatUint
      jv_writeJSONFloat split: if_splits)

lemma jv_single_member: "jsonChars k \<Longrightarrow> jsonChars v \<Longrightarrow> jsonValue (''{'' @ quoted k @ '':'' @ quoted v @ ''}'')"
  using jv_object [OF jm_one [OF _ jv_string]] by simp

lemma jsonChars_dollar: "jsonChars ''$link''" "jsonChars ''$bytes''"
  by (rule jsonChars_plain, simp add: plainChar_def)+

lemma jv_bytes: "jsonValue (render (CBytes b))"
  using jv_single_member [OF jsonChars_dollar(2) jsonChars_plain [OF EncodeToString_plain]] by simp

lemma jv_cid: "wfLib lib \<Longrightarrow> writeCIDAsJSON lib rest = Inr (o', r) \<Longrightarrow> jsonValue o'"
  using jv_single_member [OF jsonChars_dollar(1) jsonChars_plain]
  by (auto simp: writeCIDAsJSON_def andThen_Inr wfLib_def split: if_splits option.splits)

lemma jv_elems:
  "vs \<noteq> [] \<Longrightarrow> (\<And>v. v \<in> set vs \<Longrightarrow> jsonValue (f v))
   \<Longrightarrow> \<exists>es. jsonElems es \<and> interCommas i (map f vs) = (if i > 0 then '','' else []) @ es"
proof (induction vs arbitrary: i)
  case (Cons v vs)
  show ?case
  proof (cases "vs = []")
    case True
    with Cons.prems show ?thesis by (auto intro!: exI [of _ "f v"] je_one)
  next
    case False
    have "\<exists>es. jsonElems es \<and> interCommas (Suc i) (map f vs) = (if Suc i > 0 then '','' else []) @ es"
      by (rule Cons.IH [OF False]) (simp add: Cons.prems)
    then obtain es where "jsonElems es" "interCommas (Suc i) (map f vs) = '','' @ es" by auto
    with Cons.prems show ?thesis
      by (auto intro!: exI [of _ "f v @ '','' @ es"] je_more [of "f v" es, simplified])
  qed
qed simp

lemma jv_members:
  "kvs \<noteq> [] \<Longrightarrow> (\<And>kv. kv \<in> set kvs \<Longrightarrow> \<exists>k v. f kv = quoted k @ '':'' @ v \<and> jsonChars k \<and> jsonValue v)
   \<Longrightarrow> \<exists>ms. jsonMembers ms \<and> interCommas i (map f kvs) = (if i > 0 then '','' else []) @ ms"
proof (induction kvs arbitrary: i)
  case (Cons kv kvs)
  obtain k v where kv: "f kv = quoted k @ '':'' @ v" "jsonChars k" "jsonValue v"
    using Cons.prems(2) [of kv] by auto
  show ?case
  proof (cases "kvs = []")
    case True
    with kv show ?thesis by (auto intro!: exI [of _ "f kv"] jm_one [of k v, simplified])
  next
    case False
    have "\<exists>ms. jsonMembers ms \<and> interCommas (Suc i) (map f kvs) = (if Suc i > 0 then '','' else []) @ ms"
      using Cons.prems(2) by (intro Cons.IH [OF False]) auto
    then obtain ms where "jsonMembers ms" "interCommas (Suc i) (map f kvs) = '','' @ ms" by auto
    with kv show ?thesis
      by (auto intro!: exI [of _ "f kv @ '','' @ ms"] jm_more [of k v ms, simplified])
  qed
qed simp

lemma jv_array_of: "(\<And>v. v \<in> set vs \<Longrightarrow> jsonValue (render v)) \<Longrightarrow> jsonValue (render (CArr vs))"
  using jv_elems [of vs render 0] jv_array jv_empty_array by (cases "vs = []") auto

lemma jv_object_of:
  assumes "\<And>kv. kv \<in> set kvs \<Longrightarrow> jsonValue (render (snd kv))"
  shows "jsonValue (render (CMap kvs))"
proof -
  have "\<exists>k v. writeJSONString (fst kv) @ '':'' @ render (snd kv) = quoted k @ '':'' @ v
      \<and> jsonChars k \<and> jsonValue v" if "kv \<in> set kvs" for kv
    using assms [OF that] writeJSONString_quoted [of "fst kv"] by auto
  then show ?thesis
    using jv_members [of kvs "\<lambda>kv. writeJSONString (fst kv) @ '':'' @ render (snd kv)" 0]
      jv_object jv_empty_object by (cases "kvs = []") auto
qed

lemma decoded_is_json:
  assumes "wfLib lib"
  shows
  "decodeValue lib f rest = Inr (v, r) \<Longrightarrow> jsonValue (render v)"
  "decodeElems lib f n rest = Inr (vs, r) \<Longrightarrow> \<forall>v \<in> set vs. jsonValue (render v)"
  "decodeEntries lib f n rest = Inr (kvs, r) \<Longrightarrow> \<forall>kv \<in> set kvs. jsonValue (render (snd kv))"
  using assms
proof (induction lib f rest and lib f n rest and lib f n rest arbitrary: v r and vs r and kvs r
    rule: decodeValue_decodeElems_decodeEntries.induct)
  case (2 lib f rest)
  obtain maj extra r1 where hd: "getHeader lib rest = Inr (maj, extra, r1)"
    using "2.prems"(1) by (cases "getHeader lib rest") auto
  note IH = "2.IH" [OF hd refl refl]
  have "maj < 8"
    using hd "2.prems"(2) by (auto simp: wfLib_def getHeader_def split: option.splits)
  then show ?case
    using hd IH "2.prems"
    by (auto simp: andThen_Inr jv_FormatUint jv_text writeNegativeInt_value jv_FormatInt
        jv_bytes jv_other jv_cid simp del: render.simps(4-6) intro!: jv_array_of jv_object_of split: if_splits)
next
  case (6 lib f n rest)
  then show ?case by (fastforce simp: andThen_Inr)
qed (auto simp: andThen_Inr)

end
