(* ===== verification/CborProps.thy ===== *)
theory CborProps
  imports CborJson
begin

text \<open>
  The properties of \<^verbatim>\<open>ingest/cbor.go\<close>, with an instance of the third-party interface for the
  witnesses: the header format of RFC 8949, with arguments in their shortest form only, and CIDs
  printed in base 16.
\<close>

section \<open>An instance of the third-party interface\<close>

definition rfcHeader :: "string \<Rightarrow> (nat \<times> uint64 \<times> string) option" where
  "rfcHeader s =
     (case s of [] \<Rightarrow> None
      | b # t \<Rightarrow>
          let maj = of_char b div 32; low = of_char b mod 32 in
          if low < 24 then Some (maj, of_nat low, t)
          else if low < 28 then
            (let k = 2 ^ (low - 24)
             in if k \<le> length t \<and> (if k = 1 then 24 else 256 ^ (k div 2)) \<le> bigEndian (take k t)
                then Some (maj, of_nat (bigEndian (take k t)), drop k t) else None)
          else None)"

definition rfcLib :: cbor_lib where
  "rfcLib =
     \<lparr>readHeader = rfcHeader,
      castCID = (\<lambda>b. if b = [] then None
                     else Some (''f'' @ concat (map (\<lambda>c. [hexDigit (of_char c div 16), hexDigit (of_char c mod 16)]) b))),
      parseTID = (\<lambda>_. None)\<rparr>"

lemma rfcHeader_progress: "rfcHeader s = Some (maj, e, r) \<Longrightarrow> length r < length s"
  by (auto simp: rfcHeader_def Let_def le_imp_less_Suc split: list.splits if_splits)

lemma of_char_less_256: "of_char c < (256::nat)"
proof -
  have "(of_char c :: nat) = of_char c mod 256" by (metis char_of_char of_char_of)
  then show ?thesis by (metis mod_less_divisor zero_less_numeral)
qed

lemma rfcHeader_maj: "rfcHeader s = Some (maj, e, r) \<Longrightarrow> maj < 8"
proof -
  have "of_char c div 32 < (8::nat)" for c :: char
    using of_char_less_256 [of c] by (simp add: less_mult_imp_div_less)
  then show "rfcHeader s = Some (maj, e, r) \<Longrightarrow> maj < 8"
    by (auto simp: rfcHeader_def Let_def split: list.splits if_splits)
qed

lemma plain_hexDigit: "d < 16 \<Longrightarrow> plainChar (hexDigit d)"
  by (simp add: hexDigit_def plainChar_char_of)

lemma wfLib_rfcLib: "wfLib rfcLib"
proof -
  have "of_char c div 16 < (16::nat)" for c :: char
    using of_char_less_256 [of c] by (simp add: less_mult_imp_div_less)
  then have "list_all plainChar (concat (map (\<lambda>c. [hexDigit (of_char c div 16), hexDigit (of_char c mod 16)]) b))"
    for b by (induction b) (simp_all add: plain_hexDigit)
  moreover have "plainChar CHR ''f''" by (simp add: plainChar_def)
  ultimately show ?thesis
    by (auto simp: wfLib_def rfcLib_def headerProgress_def dest: rfcHeader_progress rfcHeader_maj split: if_splits)
qed

definition epoch :: gotime where
  "epoch = \<lparr>tsec = 0, tnsec = 0, toff = 0\<rparr>"

section \<open>Supporting lemmas\<close>

lemma escapeByte_high: "128 \<le> (of_char c :: nat) \<Longrightarrow> escapeByte c = [c]"
proof -
  assume c: "128 \<le> (of_char c :: nat)"
  then have "c \<noteq> CHR 0x22" "c \<noteq> CHR 0x5C" "c \<noteq> CHR 0x0A" "c \<noteq> CHR 0x0D" "c \<noteq> CHR 0x09"
    "c \<noteq> CHR 0x08" "c \<noteq> CHR 0x0C" by auto
  with c show ?thesis by (simp add: escapeByte_def)
qed

lemma char_eq_iff_nat: "of_char d = n \<Longrightarrow> c = d \<longleftrightarrow> of_char c = (n :: nat)"
  by auto

lemma escapeRune_ascii: "of_char c < (128::nat) \<Longrightarrow> escapeRune (of_char c) = escapeByte c"
proof -
  assume "of_char c < (128::nat)"
  moreover have "c = CHR 0x22 \<longleftrightarrow> of_char c = (34::nat)" "c = CHR 0x5C \<longleftrightarrow> of_char c = (92::nat)"
    "c = CHR 0x0A \<longleftrightarrow> of_char c = (10::nat)" "c = CHR 0x0D \<longleftrightarrow> of_char c = (13::nat)"
    "c = CHR 0x09 \<longleftrightarrow> of_char c = (9::nat)" "c = CHR 0x08 \<longleftrightarrow> of_char c = (8::nat)"
    "c = CHR 0x0C \<longleftrightarrow> of_char c = (12::nat)"
    by (rule char_eq_iff_nat, simp)+
  ultimately show ?thesis by (simp add: escapeRune_def escapeByte_def encodeRune_def)
qed

lemma escapeRune_multibyte:
  assumes "decodeValid s = Some (r, w)" "1 < w"
  shows "escapeRune r = concat (map escapeByte (take w s))"
proof -
  note mb = decodeValid_multibyte [OF assms]
  have e: "encodeRune r = take w s" using assms(1) by (rule encode_decodeValid)
  have "\<not> r < 128"
  proof
    assume "r < 128"
    then have "length (encodeRune r) = 1" by (simp add: encodeRune_def)
    with e mb(2) assms(2) show False by simp
  qed
  then have "escapeRune r = take w s" by (simp add: escapeRune_def e)
  moreover have "concat (map escapeByte t) = t" if "list_all (\<lambda>c. 128 \<le> (of_char c :: nat)) t" for t
    using that by (induction t) (simp_all add: escapeByte_high)
  ultimately show ?thesis using mb(1) by simp
qed

lemma escape_runes: "validUtf8 s \<Longrightarrow> concat (map escapeRune (runes s)) = concat (map escapeByte s)"
proof (induction s rule: validUtf8.induct)
  case (1 s)
  show ?case
  proof (cases "s = []")
    case True
    then show ?thesis by (simp add: runes.simps)
  next
    case False
    then obtain r w where p: "decodeValid s = Some (r, w)" "validUtf8 (drop w s)"
      using 1(2) by (subst (asm) validUtf8.simps) (auto split: option.splits)
    have IH: "concat (map escapeRune (runes (drop w s))) = concat (map escapeByte (drop w s))"
      using 1(1) [OF False p(1)] p(2) by simp
    have "escapeRune r = concat (map escapeByte (take w s))"
    proof (cases "w = 1")
      case True
      then obtain c t where "s = c # t" "r = of_char c" "r < 128" using decodeValid_ascii [OF p(1)] by blast
      with True show ?thesis by (simp add: escapeRune_ascii)
    next
      case F: False
      then have "1 < w" using decodeValid_width [OF p(1)] by simp
      with p(1) show ?thesis by (rule escapeRune_multibyte)
    qed
    moreover have "runes s = r # runes (drop w s)"
      using False p(1) by (subst runes.simps) (simp add: decodeRune_def)
    ultimately have "concat (map escapeRune (runes s))
        = concat (map escapeByte (take w s)) @ concat (map escapeByte (drop w s))"
      using IH by simp
    then show ?thesis by (metis append_take_drop_id concat_append map_append)
  qed
qed

lemma textRefs_kind:
  "bl \<in> set (textRefs path s) \<Longrightarrow>
     (isATURIBytes (bl_Ref bl) \<and> bl_RefType bl = ''uri'') \<or> (isDIDBytes (bl_Ref bl) \<and> bl_RefType bl = ''did'')"
  by (auto simp: textRefs_def classifyRef_def isATURIBytes_def prefixATURI_def split: if_splits)

lemma refs_kind:
  "bl \<in> set (refs path v) \<Longrightarrow>
     (isATURIBytes (bl_Ref bl) \<and> bl_RefType bl = ''uri'') \<or> (isDIDBytes (bl_Ref bl) \<and> bl_RefType bl = ''did'')"
  by (induction path v rule: refs.induct) (auto dest: textRefs_kind)

lemma FastCBORToJSON_cases:
  "FastCBORToJSON lib now data rkey =
     (case decodeValue lib (Suc (length data)) data of
        Inl _ \<Rightarrow> \<lparr>res_JSON = ''{}'', res_CreatedAt = parseCreatedAt lib now [] rkey, res_Backlinks = []\<rparr>
      | Inr (v, r) \<Rightarrow> \<lparr>res_JSON = render v,
           res_CreatedAt = parseCreatedAt lib now (lastOr [] (createdTexts [] v)) rkey,
           res_Backlinks = refs [] v\<rparr>)"
  by (auto simp: FastCBORToJSON_def single_pass(1) jinit_def extend_def split: sum.splits)

section \<open>Properties\<close>

text \<open>C2. The single pass over the bytes computes what three passes over the decoded tree compute
  (print it, take the last text at path \<^verbatim>\<open>createdAt\<close>, list its references), and it always comes to an
  end: the only other outcome is a genuine decoding error, which yields \<^verbatim>\<open>{}\<close>, the fallback time and
  no backlinks.\<close>

theorem FastCBORToJSON_single_pass:
  assumes "headerProgress lib"
  shows "(\<exists>v r. decodeValue lib (Suc (length data)) data = Inr (v, r)
          \<and> FastCBORToJSON lib now data rkey =
              \<lparr>res_JSON = render v,
               res_CreatedAt = parseCreatedAt lib now (lastOr [] (createdTexts [] v)) rkey,
               res_Backlinks = refs [] v\<rparr>)
       \<or> (\<exists>e. e \<noteq> OutOfFuel \<and> decodeValue lib (Suc (length data)) data = Inl e
          \<and> FastCBORToJSON lib now data rkey =
              \<lparr>res_JSON = ''{}'', res_CreatedAt = parseCreatedAt lib now [] rkey, res_Backlinks = []\<rparr>)"
proof -
  have "settles (length data - 1) (decodeValue lib (Suc (length data)) data)"
    by (rule enough_fuel_decode(1) [OF assms]) simp
  then show ?thesis
    by (cases "decodeValue lib (Suc (length data)) data")
       (auto simp: FastCBORToJSON_cases)
qed

theorem FastCBORToJSON_single_pass_witness:
  "res_JSON (FastCBORToJSON rfcLib epoch [CHR 0x18, CHR 0x64] ''k'') = ''100''
   \<or> res_JSON (FastCBORToJSON rfcLib epoch [CHR 0x18, CHR 0x64] ''k'') = ''{}''"
proof -
  have "headerProgress rfcLib" using wfLib_rfcLib by (simp add: wfLib_def)
  note P = FastCBORToJSON_single_pass [OF this, of "[CHR 0x18, CHR 0x64]" epoch "''k''"]
  have "decodeValue rfcLib (Suc (length [CHR 0x18, CHR 0x64])) [CHR 0x18, CHR 0x64] = Inr (CUint 100, [])"
    by (simp add: getHeader_def rfcLib_def rfcHeader_def bigEndian_def Let_def)
  with P show ?thesis by (auto simp: FormatUint.simps)
qed

text \<open>C3. Whatever the input bytes, the JSON text is a value of the JSON grammar, provided the header
  reader and the CID printer behave as documented.\<close>

theorem FastCBORToJSON_is_json:
  assumes "wfLib lib"
  shows "jsonValue (res_JSON (FastCBORToJSON lib now data rkey))"
  using decoded_is_json(1) [OF assms] jv_empty_object
  by (auto simp: FastCBORToJSON_cases simp del: decodeValue.simps split: sum.splits)

theorem FastCBORToJSON_is_json_witness:
  "jsonValue (res_JSON (FastCBORToJSON rfcLib epoch
     [CHR 0xA1, CHR 0x63, CHR ''v'', CHR ''a'', CHR ''l'', CHR 0x38, CHR 0x63] ''testrkey''))"
  by (rule FastCBORToJSON_is_json [OF wfLib_rfcLib])

text \<open>A CBOR negative integer with argument \<open>n\<close> is written as the decimal of \<open>-1 - n\<close> for every
  64-bit \<open>n\<close>, including those outside the \<^verbatim>\<open>int64\<close> range and the largest, where \<open>n + 1\<close> wraps.\<close>

theorem writeNegativeInt_exact:
  "writeNegativeInt n = FormatInt (- 1 - int (unat n))"
  by (rule writeNegativeInt_value)

text \<open>Every backlink the converter reports is an AT-URI labelled \<^verbatim>\<open>uri\<close> or a DID labelled
  \<^verbatim>\<open>did\<close>.\<close>

theorem FastCBORToJSON_backlinks:
  "list_all (\<lambda>bl. (isATURIBytes (bl_Ref bl) \<and> bl_RefType bl = ''uri'')
                 \<or> (isDIDBytes (bl_Ref bl) \<and> bl_RefType bl = ''did''))
     (res_Backlinks (FastCBORToJSON lib now data rkey))"
  by (auto simp: FastCBORToJSON_cases list_all_iff dest: refs_kind split: sum.splits)

text \<open>The byte-wise escaper used for text values agrees with the rune-wise escaper used for map
  keys on every valid UTF-8 string.\<close>

theorem writeJSONString_agree:
  assumes "validUtf8 s"
  shows "writeJSONStringBytes s = writeJSONString s"
  using assms by (simp add: writeJSONStringBytes_def writeJSONString_def escape_runes)

theorem writeJSONString_agree_witness:
  "writeJSONStringBytes [CHR 0xC3, CHR 0xA9, CHR 0x0A] = writeJSONString [CHR 0xC3, CHR 0xA9, CHR 0x0A]"
  by (rule writeJSONString_agree)
     (simp add: validUtf8.simps decodeValid_def byteIn_def)

lemma bigEndian_snoc: "bigEndian (bs @ [b]) = bigEndian bs * 256 + of_char b"
  by (simp add: bigEndian_def)

lemma bigEndian_bound: "bigEndian bs < 256 ^ length bs"
proof (induction bs rule: rev_induct)
  case (snoc b bs)
  then have "bigEndian bs * 256 + of_char b < (bigEndian bs + 1) * 256"
    using of_char_less_256 [of b] by simp
  also have "\<dots> \<le> 256 ^ length bs * 256" using snoc by (intro mult_right_mono) simp_all
  finally show ?case by (simp add: bigEndian_snoc)
qed (simp add: bigEndian_def)

text \<open>C38. A double is not written as a number of its value. Let the header reader return the eight
  bytes that follow the initial byte \<open>0xFB\<close> as the argument, as every reader of RFC 8949 does (for the
  arguments above 4294967295, to which a reader that insists on the shortest form restricts an
  eight-byte argument). Then the 64 bits of the float are printed as an integer, because the code
  compares the argument, not the additional information, with 27.\<close>

theorem float64_printed_as_bits:
  assumes "length bs = 8" "2 ^ 32 \<le> bigEndian bs"
    and "readHeader lib (CHR 0xFB # bs @ rest) = Some (7, of_nat (bigEndian bs), rest)"
  shows "res_JSON (FastCBORToJSON lib now (CHR 0xFB # bs @ rest) rkey) = FormatUint (bigEndian bs)"
proof -
  let ?w = "of_nat (bigEndian bs) :: uint64"
  have "bigEndian bs < 2 ^ 64" using bigEndian_bound [of bs] assms(1) by simp
  then have u: "unat ?w = bigEndian bs" by (intro of_nat_word_eq) auto
  have n: "?w \<noteq> 20" "?w \<noteq> 21" "?w \<noteq> 22" "?w \<noteq> 23" "?w \<noteq> 25" "?w \<noteq> 26" "?w \<noteq> 27"
    using assms(2) u by auto
  have "decodeValue lib (Suc (length (CHR 0xFB # bs @ rest))) (CHR 0xFB # bs @ rest)
      = Inr (CRaw (FormatUint (bigEndian bs)), rest)"
    unfolding decodeValue.simps length_Cons getHeader_def assms(3)
    using n by (simp add: writeOtherAsJSON_def u)
  then show ?thesis by (simp add: FastCBORToJSON_cases)
qed

theorem float64_printed_as_bits_witness:
  "res_JSON (FastCBORToJSON rfcLib epoch
     [CHR 0xFB, CHR 0x3F, CHR 0xF8, CHR 0x00, CHR 0x00, CHR 0x00, CHR 0x00, CHR 0x00, CHR 0x00] ''k'')
   = FormatUint 4609434218613702656"
  using float64_printed_as_bits
    [of "[CHR 0x3F, CHR 0xF8, CHR 0x00, CHR 0x00, CHR 0x00, CHR 0x00, CHR 0x00, CHR 0x00]" rfcLib "[]" epoch "''k''"]
  by (simp add: bigEndian_def rfcLib_def rfcHeader_def Let_def)

text \<open>The second attempt of \<^verbatim>\<open>parseCreatedAt\<close>, with the layout \<^verbatim>\<open>RFC3339Nano\<close>, never
  changes the result: the first layout already accepts a fraction of a second.\<close>

theorem parseCreatedAt_one_layout:
  "parseCreatedAt lib now createdAt rkey =
     (case (if createdAt \<noteq> [] then parseTime False createdAt else None) of
        Some t \<Rightarrow> t
      | None \<Rightarrow> (case parseTID lib rkey of Some t \<Rightarrow> t | None \<Rightarrow> now))"
  by (auto simp: parseCreatedAt_def parseTime_nano split: option.splits)

end
