(* ===== verification/JsonReadback.thy ===== *)
theory JsonReadback
  imports CborProps
begin

text \<open>
  \<^verbatim>\<open>encoding/json\<close> reads back what the converter of \<open>Cbor\<close> writes: the JSON text of a decoded
  record parses to the tree \<open>jsonOf\<close> of the record, with the strings it held (invalid UTF-8 replaced),
  its members in order and its numbers as written.
\<close>

section \<open>Strings\<close>

lemma scanChars_jsonChars: "jsonChars k \<Longrightarrow> scanChars (k @ CHR 0x22 # r) = Some (k, r)"
  by (induction rule: jsonChars.induct) (auto simp: plainChar_def)

lemma unquote_step: "unquoteStep (a @ b) = (w, length a) \<Longrightarrow> a \<noteq> [] \<Longrightarrow> unquoteBytes (a @ b) = w @ unquoteBytes b"
  by (subst unquoteBytes.simps) simp

lemma hexVal_hexDigit: "d < 16 \<Longrightarrow> hexVal (hexDigit d) = d"
  by (simp add: hexVal_def hexDigit_def)

lemma getu4_escapeU: "n < 32 \<Longrightarrow> getu4 (escapeU n @ t) = Some n"
proof -
  assume n: "n < 32"
  then have "n div 4096 mod 16 = 0" "n div 256 mod 16 = 0" "n div 16 mod 16 = n div 16" "n div 16 < 16"
    by simp_all
  then show ?thesis
    by (simp add: getu4_def escapeU_def isHex_hexDigit hexVal_hexDigit)
qed

lemma unquote_escapeU: "n < 32 \<Longrightarrow> unquoteBytes (escapeU n @ t) = [char_of n] @ unquoteBytes t"
  using getu4_escapeU [of n t]
  by (intro unquote_step) (simp_all add: unquoteStep_def escapeU_def highSurrogate_def lowSurrogate_def encodeRune_def)

lemma unquote_escapeByte: "of_char c < (128::nat) \<Longrightarrow> unquoteBytes (escapeByte c @ t) = c # unquoteBytes t"
proof -
  assume c: "of_char c < (128::nat)"
  consider "c = CHR 0x22" | "c = CHR 0x5C" | "c = CHR 0x0A" | "c = CHR 0x0D" | "c = CHR 0x09"
    | "c = CHR 0x08" | "c = CHR 0x0C" | "escapeByte c = escapeU (of_char c)" "of_char c < (32::nat)"
    | "escapeByte c = [c]" "c \<noteq> CHR 0x5C"
    unfolding escapeByte_def by presburger
  then show ?thesis
  proof cases
    case 8
    then show ?thesis by (simp add: unquote_escapeU)
  next
    case 9
    then show ?thesis using c unquote_step [of "[c]" t "[c]"] by (simp add: unquoteStep_def)
  qed (use unquote_step [of "escapeByte c" t "[c]"] in \<open>simp add: unquoteStep_def escapeByte_def unescapeChar_def\<close>)+
qed

lemma escapeByte_ascii: "of_char c < (128::nat) \<Longrightarrow> \<exists>d ds. escapeByte c = d # ds \<and> of_char d < (128::nat)"
  by (auto simp: escapeByte_def escapeU_def)

lemma takeWhile_escaped: "takeWhile highByte (concat (map escapeByte s)) = takeWhile highByte s"
proof (induction s)
  case (Cons x s)
  then show ?case
    using escapeByte_ascii [of x] escapeByte_high [of x]
    by (cases "highByte x") (auto simp: highByte_def not_le)
qed simp

text \<open>Escaping does not touch the bytes a multi-byte rune is made of.\<close>

lemma decodeValid_escaped:
  "highByte c \<Longrightarrow> decodeValid (c # concat (map escapeByte s)) = decodeValid (c # s)"
  by (metis decodeValid_highBytes takeWhile_escaped)

lemma drop_escaped:
  "list_all highByte (take w s) \<Longrightarrow> w \<le> length s \<Longrightarrow>
     drop w (concat (map escapeByte s)) = concat (map escapeByte (drop w s))"
proof (induction w arbitrary: s)
  case (Suc w)
  then show ?case by (cases s) (auto simp: highByte_def escapeByte_high)
qed simp

lemma unquote_text: "unquoteBytes (concat (map escapeByte s)) = toValidUTF8 s"
proof (induction s rule: length_induct)
  case (1 s)
  show ?case
  proof (cases s)
    case Nil
    then show ?thesis by (simp add: unquoteBytes.simps toValidUTF8_def runes.simps)
  next
    case (Cons c t)
    have runes: "toValidUTF8 s = encodeRune (fst (decodeRune s)) @ toValidUTF8 (drop (snd (decodeRune s)) s)"
      unfolding toValidUTF8_def using Cons by (subst runes.simps) simp
    show ?thesis
    proof (cases "highByte c")
      case False
      then have "decodeRune s = (of_char c, 1)" "of_char c < (128::nat)"
        by (simp_all add: Cons decodeRune_def decodeValid_def highByte_def)
      with runes show ?thesis
        using 1 Cons by (simp add: unquote_escapeByte encodeRune_def)
    next
      case True
      define w where "w = snd (decodeRune s)"
      have dr: "decodeRune (c # concat (map escapeByte t)) = decodeRune s"
        using decodeValid_escaped [OF True] by (simp add: Cons decodeRune_def)
      have "list_all highByte (take w s) \<and> w \<le> length s"
      proof (cases "decodeValid s")
        case None
        then show ?thesis using True by (simp add: w_def decodeRune_def Cons)
      next
        case (Some p)
        then have "1 < snd p" using decodeValid_high_width [of c t "fst p" "snd p"] True Cons by simp
        then show ?thesis
          using decodeValid_multibyte [of s "fst p" "snd p"] Some
          by (auto simp: w_def decodeRune_def highByte_def [abs_def] min_def split: if_splits)
      qed
      then have drop: "drop w (concat (map escapeByte s)) = concat (map escapeByte (drop w s))"
        by (simp add: drop_escaped)
      have "unquoteStep (concat (map escapeByte s)) = (encodeRune (fst (decodeRune s)), w)"
        using True dr by (auto simp: Cons escapeByte_high highByte_def unquoteStep_def w_def)
      moreover have "concat (map escapeByte s) \<noteq> []" using True by (simp add: Cons escapeByte_high highByte_def)
      moreover have "unquoteBytes (concat (map escapeByte (drop w s))) = toValidUTF8 (drop w s)"
        using 1 decodeRune_width [of s] by (simp add: w_def Cons)
      ultimately show ?thesis
        unfolding unquoteBytes.simps [of "concat (map escapeByte s)"] runes w_def [symmetric]
        by (simp only: drop if_False fst_conv snd_conv)
    qed
  qed
qed


lemma unquote_escapeRune:
  assumes "s \<noteq> []" "r = fst (decodeRune s)"
  shows "unquoteBytes (escapeRune r @ t) = encodeRune r @ unquoteBytes t"
proof (cases "r < 128")
  case True
  have r: "of_char (char_of r) = r" using True by simp
  then have "escapeRune r = escapeByte (char_of r)" using True escapeRune_ascii [of "char_of r"] by simp
  moreover have "encodeRune r = [char_of r]" using True by (simp add: encodeRune_def)
  ultimately show ?thesis using True unquote_escapeByte [of "char_of r" t] r by simp
next
  case False
  note d = decoded_rune [OF assms]
  have esc: "escapeRune r = encodeRune r" using False by (simp add: escapeRune_def)
  obtain c e where ce: "encodeRune r = c # e" using d(1) by (cases "encodeRune r") auto
  have c: "highByte c" using d(3) False ce by simp
  then have "c \<noteq> CHR 0x5C" "\<not> of_char c < (128::nat)" by (auto simp: highByte_def)
  then have "unquoteStep (encodeRune r @ t) = (encodeRune r, length (encodeRune r))"
    using d(2) [of t] by (simp add: unquoteStep_def ce)
  then show ?thesis using d(1) unfolding esc by (rule unquote_step)
qed

lemma unquote_key: "unquoteBytes (concat (map escapeRune (runes s))) = toValidUTF8 s"
proof (induction s rule: length_induct)
  case (1 s)
  show ?case
  proof (cases "s = []")
    case True
    then show ?thesis by (simp add: unquoteBytes.simps toValidUTF8_def runes.simps)
  next
    case False
    have "runes s = fst (decodeRune s) # runes (drop (snd (decodeRune s)) s)"
      using False by (subst runes.simps) simp
    moreover have "unquoteBytes (concat (map escapeRune (runes (drop (snd (decodeRune s)) s))))
        = toValidUTF8 (drop (snd (decodeRune s)) s)"
      using 1 False decodeRune_width [of s] by simp
    ultimately show ?thesis
      using unquote_escapeRune [OF False refl] by (simp add: toValidUTF8_def)
  qed
qed

section \<open>Numbers\<close>

text \<open>What follows a value inside an array, an object or at the end.\<close>

definition delimited :: "string \<Rightarrow> bool" where
  "delimited r \<longleftrightarrow> r = [] \<or> hd r \<in> {CHR '','', CHR '']'', CHR ''}''}"

lemma delimited_simps [simp]:
  "delimited []" "delimited (CHR '','' # r)" "delimited (CHR '']'' # r)" "delimited (CHR ''}'' # r)"
  by (simp_all add: delimited_def)

lemma delimited_no_digit: "delimited r \<Longrightarrow> r = [] \<or> \<not> isDigit (hd r)"
  by (auto simp: delimited_def isDigit_def)

lemma digits_span:
  assumes "list_all isDigit ds" "x = [] \<or> \<not> isDigit (hd x)"
  shows "takeWhile isDigit (ds @ x) = ds" "dropWhile isDigit (ds @ x) = x"
  using assms by (induction ds) (cases x; simp)+

lemma scanInt_read:
  assumes "jsonInt ip" "x = [] \<or> \<not> isDigit (hd x)"
  shows "scanInt (ip @ x) = Some (ip, x)"
proof (cases ip)
  case (Cons c ds)
  with assms digits_span [of ds x] show ?thesis
    by (cases "c = CHR ''0''") (auto simp: scanInt_def jsonInt_def)
qed (use assms in \<open>simp add: jsonInt_def\<close>)

lemma scanFrac_read:
  assumes "jsonFrac fp" "delimited x"
  shows "scanFrac (fp @ x) = Some (fp, x)"
proof (cases "fp = []")
  case True
  with assms(2) show ?thesis by (cases x) (auto simp: scanFrac_def delimited_def)
next
  case False
  with assms(1) obtain ds where "fp = CHR ''.'' # ds" "ds \<noteq> []" "list_all isDigit ds"
    by (auto simp: jsonFrac_def)
  with digits_span [of ds x] delimited_no_digit [OF assms(2)] show ?thesis
    by (simp add: scanFrac_def)
qed

lemma scanExp_read: "delimited x \<Longrightarrow> scanExp x = Some ([], x)"
  by (cases x) (auto simp: scanExp_def delimited_def)

lemma scanUnsigned_read:
  assumes "jsonNumber s" "delimited x"
  shows "scanUnsigned (s @ x) = Some (s, x)"
proof -
  obtain ip fp where s: "s = ip @ fp" "jsonInt ip" "jsonFrac fp" using assms(1) by (auto simp: jsonNumber_def)
  have "fp @ x = [] \<or> \<not> isDigit (hd (fp @ x))"
    using s(3) delimited_no_digit [OF assms(2)] by (auto simp: jsonFrac_def isDigit_def)
  from scanInt_read [OF s(2) this] show ?thesis
    using scanFrac_read [OF s(3) assms(2)] scanExp_read [OF assms(2)] by (simp add: scanUnsigned_def s(1))
qed

section \<open>Values\<close>

text \<open>\<open>reads d s j\<close>: with \<open>d\<close> levels of nesting left, the text \<open>s\<close> is read as \<open>j\<close>.\<close>

definition reads :: "int \<Rightarrow> string \<Rightarrow> json \<Rightarrow> bool" where
  "reads d s j \<longleftrightarrow>
     s \<noteq> [] \<and> \<not> isJsonSpace (hd s) \<and> hd s \<noteq> CHR '']''
     \<and> (\<forall>nest r. nest + d \<le> maxNestingDepth \<longrightarrow> delimited r \<longrightarrow> parseValue nest (s @ r) = Some (j, r))"

lemma skipSpace_Cons: "\<not> isJsonSpace c \<Longrightarrow> skipSpace (c # s) = c # s"
  by (simp add: skipSpace_def)

lemma skipSpace_punct [simp]:
  "skipSpace (CHR '','' # s) = CHR '','' # s" "skipSpace (CHR '']'' # s) = CHR '']'' # s"
  "skipSpace (CHR ''}'' # s) = CHR ''}'' # s" "skipSpace (CHR '':'' # s) = CHR '':'' # s"
  "skipSpace (CHR ''['' # s) = CHR ''['' # s" "skipSpace (CHR ''{'' # s) = CHR ''{'' # s"
  "skipSpace (CHR 0x22 # s) = CHR 0x22 # s"
  by (simp_all add: skipSpace_def isJsonSpace_def)

lemma reads_mono: "reads d s j \<Longrightarrow> d \<le> d' \<Longrightarrow> reads d' s j"
  by (auto simp: reads_def)

lemma reads_number:
  assumes "jsonNumber n"
  shows "reads 0 n (JNumber n)" "reads 0 (CHR ''-'' # n) (JNumber (CHR ''-'' # n))"
proof -
  obtain c t where n: "n = c # t" "isDigit c"
    using assms by (cases n) (auto simp: jsonNumber_def jsonInt_def Cons_eq_append_conv)
  have c: "\<not> isJsonSpace c" "c \<noteq> CHR ''[''" "c \<noteq> CHR ''{''" "c \<noteq> CHR 0x22" "c \<noteq> CHR ''t''"
    "c \<noteq> CHR ''f''" "c \<noteq> CHR ''n''" "c \<noteq> CHR ''-''" "c \<noteq> CHR '']''"
    using n(2) by (auto simp: isJsonSpace_def isDigit_def)
  have u: "scanUnsigned (c # t @ r) = Some (n, r)" if "delimited r" for r
    using scanUnsigned_read [OF assms that] by (simp add: n)
  show "reads 0 n (JNumber n)"
    using c u by (auto simp: reads_def n parseValue.simps skipSpace_Cons HasPrefix_def scanNumber_def)
  have "\<not> isJsonSpace CHR ''-''" by (simp add: isJsonSpace_def)
  then show "reads 0 (CHR ''-'' # n) (JNumber (CHR ''-'' # n))"
    using u by (auto simp: reads_def n parseValue.simps skipSpace_Cons HasPrefix_def scanNumber_def)
qed

lemma reads_literal:
  "reads 0 ''true'' (JBool True)" "reads 0 ''false'' (JBool False)" "reads 0 ''null'' JNull"
  by (auto simp: reads_def parseValue.simps skipSpace_Cons isJsonSpace_def HasPrefix_def)

lemma reads_string: "jsonChars k \<Longrightarrow> reads 0 (quoted k) (JString (unquoteBytes k))"
  by (auto simp: reads_def quoted_def isJsonSpace_def parseValue.simps scanChars_jsonChars)

section \<open>Arrays and objects\<close>

lemma interCommas_Suc: "interCommas (Suc i) ss = concat (map (\<lambda>s. CHR '','' # s) ss)"
  by (induction ss arbitrary: i) simp_all

lemma parseElems_read:
  assumes "reads d (f v) (g v)" "\<And>w. w \<in> set vs \<Longrightarrow> reads d (f w) (g w)" "nest + d \<le> maxNestingDepth"
  shows "parseElems nest (f v @ concat (map (\<lambda>s. CHR '','' # s) (map f vs)) @ '']'' @ r) = Some (map g (v # vs), r)"
  using assms(1,2)
proof (induction vs arbitrary: v)
  case Nil
  then show ?case using assms(3) by (subst parseElems_step) (simp add: reads_def)
next
  case (Cons w ws)
  have "parseElems nest (f w @ concat (map (\<lambda>s. CHR '','' # s) (map f ws)) @ '']'' @ r) = Some (map g (w # ws), r)"
    using Cons by simp
  then show ?case using Cons.prems(1) assms(3) by (subst parseElems_step) (simp add: reads_def)
qed

lemma parseMembers_read:
  assumes "jsonChars k" "reads d (f v) (g v)"
    and "\<And>m. m \<in> set ms \<Longrightarrow> jsonChars (fst m) \<and> reads d (f (snd m)) (g (snd m))"
    and "nest + d \<le> maxNestingDepth"
  shows "parseMembers nest (quoted k @ '':'' @ f v
      @ concat (map (\<lambda>s. CHR '','' # s) (map (\<lambda>m. quoted (fst m) @ '':'' @ f (snd m)) ms)) @ ''}'' @ r)
    = Some ((unquoteBytes k, g v) # map (\<lambda>m. (unquoteBytes (fst m), g (snd m))) ms, r)"
  using assms(1-3)
proof (induction ms arbitrary: k v)
  case Nil
  then show ?case using assms(4)
    by (subst parseMembers_step) (simp add: reads_def quoted_def HasPrefix_def scanChars_jsonChars)
next
  case (Cons m ms)
  have "parseMembers nest (quoted (fst m) @ '':'' @ f (snd m)
      @ concat (map (\<lambda>s. CHR '','' # s) (map (\<lambda>m. quoted (fst m) @ '':'' @ f (snd m)) ms)) @ ''}'' @ r)
    = Some ((unquoteBytes (fst m), g (snd m)) # map (\<lambda>m. (unquoteBytes (fst m), g (snd m))) ms, r)"
    using Cons by simp
  then show ?case using Cons.prems(1,2) assms(4)
    by (subst parseMembers_step) (simp add: reads_def quoted_def HasPrefix_def scanChars_jsonChars)
qed

lemma reads_array:
  assumes "\<And>v. v \<in> set vs \<Longrightarrow> reads d (f v) (g v)"
  shows "reads (1 + max 0 d) (''['' @ interCommas 0 (map f vs) @ '']'') (JArray (map g vs))"
proof (cases vs)
  case Nil
  then show ?thesis by (auto simp: reads_def isJsonSpace_def parseValue.simps HasPrefix_def max_def split: if_splits)
next
  case (Cons v ws)
  have "parseValue nest (''['' @ interCommas 0 (map f vs) @ '']'' @ r) = Some (JArray (map g vs), r)"
    if "nest + (1 + max 0 d) \<le> maxNestingDepth" for nest r
  proof -
    have "reads d (f v) (g v)" using assms Cons by simp
    then obtain c t where "f v = c # t" "\<not> isJsonSpace c" "c \<noteq> CHR '']''"
      by (cases "f v") (auto simp: reads_def)
    moreover have "parseElems (nest + 1) (f v @ concat (map (\<lambda>s. CHR '','' # s) (map f ws)) @ '']'' @ r)
        = Some (map g vs, r)"
      using parseElems_read [where d = d and f = f and g = g and v = v and vs = ws and nest = "nest + 1"] assms that Cons by simp
    ultimately show ?thesis
      using that Cons by (subst parseValue.simps) (simp add: interCommas_Suc HasPrefix_def skipSpace_Cons)
  qed
  then show ?thesis by (simp add: reads_def isJsonSpace_def)
qed

lemma reads_object:
  assumes "\<And>m. m \<in> set ms \<Longrightarrow> jsonChars (fst m) \<and> reads d (f (snd m)) (g (snd m))"
  shows "reads (1 + max 0 d) (''{'' @ interCommas 0 (map (\<lambda>m. quoted (fst m) @ '':'' @ f (snd m)) ms) @ ''}'')
    (JObject (map (\<lambda>m. (unquoteBytes (fst m), g (snd m))) ms))"
proof (cases ms)
  case Nil
  then show ?thesis by (auto simp: reads_def isJsonSpace_def parseValue.simps HasPrefix_def max_def split: if_splits)
next
  case (Cons m ws)
  have "parseValue nest (''{'' @ interCommas 0 (map (\<lambda>m. quoted (fst m) @ '':'' @ f (snd m)) ms) @ ''}'' @ r)
      = Some (JObject (map (\<lambda>m. (unquoteBytes (fst m), g (snd m))) ms), r)"
    if "nest + (1 + max 0 d) \<le> maxNestingDepth" for nest r
  proof -
    have "parseMembers (nest + 1) (quoted (fst m) @ '':'' @ f (snd m)
        @ concat (map (\<lambda>s. CHR '','' # s) (map (\<lambda>m. quoted (fst m) @ '':'' @ f (snd m)) ws)) @ ''}'' @ r)
        = Some (map (\<lambda>m. (unquoteBytes (fst m), g (snd m))) ms, r)"
      using parseMembers_read [where d = d and f = f and g = g and v = "snd m" and k = "fst m" and ms = ws and nest = "nest + 1"]
        assms that Cons by simp
    then show ?thesis
      using that Cons by (subst parseValue.simps) (simp add: interCommas_Suc HasPrefix_def quoted_def)
  qed
  then show ?thesis by (simp add: reads_def isJsonSpace_def)
qed

section \<open>Decoded records\<close>

text \<open>The tree that the text of a decoded value is read back as. The text of a CID link or of a simple
  value comes from the decoder as it is and is read as it is.\<close>

fun jsonOf :: "cval \<Rightarrow> json" where
  "jsonOf (CUint n) = JNumber (FormatUint (unat n))"
| "jsonOf (CNeg n) = JNumber (writeNegativeInt n)"
| "jsonOf (CText s) = JString (toValidUTF8 s)"
| "jsonOf (CBytes b) = JObject [(''$bytes'', JString (unquoteBytes (EncodeToString b)))]"
| "jsonOf (CArr vs) = JArray (map jsonOf vs)"
| "jsonOf (CMap kvs) = JObject (map (\<lambda>kv. (toValidUTF8 (fst kv), jsonOf (snd kv))) kvs)"
| "jsonOf (CTagged v) = jsonOf v"
| "jsonOf (CRaw s) = (case parseValue 0 s of Some (j, _) \<Rightarrow> j | None \<Rightarrow> JNull)"
| "jsonOf CNothing = JNull"

fun nesting :: "cval \<Rightarrow> int" where
  "nesting (CBytes b) = 1"
| "nesting (CArr vs) = 1 + foldr max (map nesting vs) 0"
| "nesting (CMap kvs) = 1 + foldr max (map (\<lambda>kv. nesting (snd kv)) kvs) 0"
| "nesting (CTagged v) = nesting v"
| "nesting (CRaw s) = 1"
| "nesting _ = 0"

lemma foldr_max_ge: "x \<in> set xs \<Longrightarrow> x \<le> foldr max xs (0::int)"
  by (induction xs) auto

lemma foldr_max_nonneg: "0 \<le> foldr max xs (0::int)"
  by (induction xs) auto

text \<open>What the decoder guarantees of the texts it passes through.\<close>

fun readable :: "cval \<Rightarrow> bool" where
  "readable (CRaw s) = (\<exists>j. reads 1 s j)"
| "readable (CArr vs) = (\<forall>v \<in> set vs. readable v)"
| "readable (CMap kvs) = (\<forall>kv \<in> set kvs. readable (snd kv))"
| "readable (CTagged v) = readable v"
| "readable CNothing = False"
| "readable _ = True"

lemma writeJSONStringBytes_content: "writeJSONStringBytes s = quoted (concat (map escapeByte s))"
  by (simp add: writeJSONStringBytes_def quoted_def)

lemma writeJSONString_content: "writeJSONString s = quoted (concat (map escapeRune (runes s)))"
  by (simp add: writeJSONString_def quoted_def)

lemma reads_object':
  assumes "\<And>kv. kv \<in> set kvs \<Longrightarrow> reads d (f (snd kv)) (g (snd kv))"
  shows "reads (1 + max 0 d) (''{'' @ interCommas 0 (map (\<lambda>kv. writeJSONString (fst kv) @ '':'' @ f (snd kv)) kvs) @ ''}'')
    (JObject (map (\<lambda>kv. (toValidUTF8 (fst kv), g (snd kv))) kvs))"
proof -
  let ?ms = "map (\<lambda>kv. (concat (map escapeRune (runes (fst kv))), snd kv)) kvs"
  have "jsonChars (concat (map escapeRune (runes k)))" for k
    by (simp add: jsonChars_concat jsonChars_escapeRune)
  then have "\<And>m. m \<in> set ?ms \<Longrightarrow> jsonChars (fst m) \<and> reads d (f (snd m)) (g (snd m))"
    using assms by auto
  from reads_object [where ms = ?ms and f = f and g = g, OF this] show ?thesis
    by (simp add: o_def writeJSONString_content unquote_key)
qed

lemma reads_member:
  assumes "jsonChars k" "jsonChars v"
  shows "reads 1 (''{'' @ quoted k @ '':'' @ quoted v @ ''}'')
    (JObject [(unquoteBytes k, JString (unquoteBytes v))])"
  using reads_object [of "[(k, v)]" 0 quoted "\<lambda>v. JString (unquoteBytes v)"] assms reads_string by simp

lemma unquote_dollar: "unquoteBytes ''$bytes'' = ''$bytes''"
  by code_simp

lemma readable_reads: "readable v \<Longrightarrow> reads (nesting v) (render v) (jsonOf v)"
proof (induction v)
  case (CUint n)
  then show ?case using reads_number(1) jsonNumber_FormatUint by simp
next
  case (CNeg n)
  have "writeNegativeInt n = CHR ''-'' # FormatUint (Suc (unat n))"
    using FormatInt_neg [of "unat n"] unfolding writeNegativeInt_value by simp
  then show ?case using reads_number(2) jsonNumber_FormatUint by simp
next
  case (CText s)
  have "jsonChars (concat (map escapeByte s))" by (simp add: jsonChars_concat jsonChars_escapeByte)
  then show ?case using reads_string by (fastforce simp: writeJSONStringBytes_content unquote_text)
next
  case (CBytes b)
  then show ?case
    using reads_member [OF jsonChars_dollar(2) jsonChars_plain [OF EncodeToString_plain [of b]]]
    by (simp add: unquote_dollar)
next
  case (CArr vs)
  have "reads (foldr max (map nesting vs) 0) (render v) (jsonOf v)" if "v \<in> set vs" for v
    using CArr that by (intro reads_mono [OF CArr.IH]) (auto intro: foldr_max_ge)
  then show ?case using reads_array [where f = render and g = jsonOf] foldr_max_nonneg [of "map nesting vs"]
    by (fastforce simp: max_def)
next
  case (CMap kvs)
  have "reads (foldr max (map (\<lambda>kv. nesting (snd kv)) kvs) 0) (render (snd kv)) (jsonOf (snd kv))"
    if "kv \<in> set kvs" for kv
    using CMap that by (intro reads_mono [OF CMap.IH [of kv "snd kv"]]) (auto intro: foldr_max_ge simp: snds.simps)
  from reads_object' [where f = render and g = jsonOf, OF this]
  show ?case using foldr_max_nonneg [of "map (\<lambda>kv. nesting (snd kv)) kvs"] by (simp add: max_def)
next
  case (CRaw s)
  then obtain j where j: "reads 1 s j" by auto
  then have "parseValue 0 (s @ []) = Some (j, [])" by (simp add: reads_def maxNestingDepth_def del: append_Nil2)
  with j show ?case by simp
qed simp_all

lemma readable_other: "writeOtherAsJSON extra rest = Inr (o', r) \<Longrightarrow> readable (CRaw o')"
proof -
  have num: "readable (CRaw (FormatUint n))" for n
    using reads_mono [OF reads_number(1) [OF jsonNumber_FormatUint], where d' = 1] by auto
  have lit: "readable (CRaw ''true'')" "readable (CRaw ''false'')" "readable (CRaw ''null'')"
    using reads_literal [THEN reads_mono, where d' = 1] by auto
  have "readable (CRaw (writeJSONFloat x))" for x
  proof (cases x)
    case (Finite neg q)
    have "jsonNumber (if q = 0 then ''0'' else placePoint (shortestDecimal q))"
      using jsonNumber_FormatUint [of 0] jsonNumber_placePoint [of "fst (shortestDecimal q)" "snd (shortestDecimal q)"]
      by simp
    from reads_number [OF this, THEN reads_mono, where d' = 1]
    show ?thesis by (cases neg) (auto simp: Finite writeJSONFloat_def FormatFloat_def)
  qed (simp_all add: writeJSONFloat_def lit del: readable.simps)
  with num lit show "writeOtherAsJSON extra rest = Inr (o', r) \<Longrightarrow> readable (CRaw o')"
    by (auto simp: writeOtherAsJSON_def andThen_Inr simp del: readable.simps split: if_splits)
qed

lemma readable_cid: "wfLib lib \<Longrightarrow> writeCIDAsJSON lib rest = Inr (o', r) \<Longrightarrow> readable (CRaw o')"
proof -
  assume lib: "wfLib lib" and w: "writeCIDAsJSON lib rest = Inr (o', r)"
  from w obtain b c where "castCID lib b = Some c" and o': "o' = ''{'' @ quoted ''$link'' @ '':'' @ quoted c @ ''}''"
    by (auto simp: writeCIDAsJSON_def andThen_Inr split: if_splits option.splits)
  with lib have c: "list_all plainChar c" by (auto simp: wfLib_def)
  show "readable (CRaw o')"
    using reads_member [OF jsonChars_dollar(1) jsonChars_plain [OF c]] unfolding o' readable.simps by blast
qed

lemma decoded_readable:
  assumes "wfLib lib"
  shows
  "decodeValue lib f rest = Inr (v, r) \<Longrightarrow> readable v"
  "decodeElems lib f n rest = Inr (vs, r) \<Longrightarrow> \<forall>v \<in> set vs. readable v"
  "decodeEntries lib f n rest = Inr (kvs, r) \<Longrightarrow> \<forall>kv \<in> set kvs. readable (snd kv)"
  using assms
proof (induction lib f rest and lib f n rest and lib f n rest arbitrary: v r and vs r and kvs r
    rule: decodeValue_decodeElems_decodeEntries.induct)
  case (2 lib f rest)
  obtain maj extra r1 where hd: "getHeader lib rest = Inr (maj, extra, r1)"
    using "2.prems"(1) by (cases "getHeader lib rest") auto
  note IH = "2.IH" [OF hd refl refl]
  have "maj < 8"
    using hd "2.prems"(2) by (auto simp: wfLib_def getHeader_def split: option.splits)
  then show ?case
    using hd IH "2.prems" readable_other [of extra r1] readable_cid [of lib r1]
    by (auto simp: andThen_Inr simp del: readable.simps(1) split: if_splits)
next
  case (6 lib f n rest)
  then show ?case by (fastforce simp: andThen_Inr)
qed (auto simp: andThen_Inr)

text \<open>A record that is not nested too deeply for \<^verbatim>\<open>encoding/json\<close> is read back as the tree it was
  decoded to.\<close>

lemma parseDocument_render:
  assumes "wfLib lib" "decodeValue lib f data = Inr (v, r)" "nesting v \<le> maxNestingDepth"
  shows "parseDocument (render v) = Some (jsonOf v)"
proof -
  have "reads (nesting v) (render v) (jsonOf v)" using decoded_readable(1) [OF assms(1,2)] by (rule readable_reads)
  then have "parseValue 0 (render v @ []) = Some (jsonOf v, [])"
    using assms(3) by (simp add: reads_def del: append_Nil2)
  then show ?thesis by (simp add: parseDocument_def skipSpace_def)
qed

section \<open>Properties\<close>

text \<open>C4. The JSON text of a record is read back by \<^verbatim>\<open>encoding/json\<close> as the tree the record was
  decoded to: the same members in the same order, the same arrays, numbers as they were written, bytes and
  links as one-member objects, and every string as it was, invalid UTF-8 replaced. The bound is the
  nesting depth that \<^verbatim>\<open>encoding/json\<close> accepts.\<close>

theorem record_reads_back:
  assumes "wfLib lib" "decodeValue lib (Suc (length data)) data = Inr (v, r)"
    and "nesting v \<le> maxNestingDepth"
  shows "parseDocument (res_JSON (FastCBORToJSON lib now data rkey)) = Some (jsonOf v)"
proof -
  have "res_JSON (FastCBORToJSON lib now data rkey) = render v"
    using assms(2) by (simp add: FastCBORToJSON_cases del: decodeValue.simps)
  then show ?thesis using parseDocument_render [OF assms] by simp
qed

theorem record_reads_back_witness:
  "parseDocument (res_JSON (FastCBORToJSON rfcLib epoch
     [CHR 0xA1, CHR 0x61, CHR ''a'', CHR 0x82, CHR 0x05, CHR 0x61, CHR 0x0A] ''k''))
   = Some (JObject [(''a'', JArray [JNumber ''5'', JString [CHR 0x0A]])])"
proof -
  let ?v = "CMap [(''a'', CArr [CUint 5, CText [CHR 0x0A]])]"
  have d: "decodeValue rfcLib (Suc (length [CHR 0xA1, CHR 0x61, CHR ''a'', CHR 0x82, CHR 0x05, CHR 0x61, CHR 0x0A]))
      [CHR 0xA1, CHR 0x61, CHR ''a'', CHR 0x82, CHR 0x05, CHR 0x61, CHR 0x0A] = Inr (?v, [])"
    by code_simp
  have n: "nesting ?v \<le> maxNestingDepth" by (simp add: maxNestingDepth_def)
  have u: "toValidUTF8 ''a'' = ''a''" "toValidUTF8 [CHR 0x0A] = [CHR 0x0A]"
    by (rule toValidUTF8_valid [OF validUtf8_ascii], simp)+
  have "FormatUint 5 = ''5''" by code_simp
  with record_reads_back [OF wfLib_rfcLib d n] u show ?thesis by simp
qed

end
