(* ===== verification/SelfLabels.thy ===== *)
theory SelfLabels
  imports JsonReadback
begin

text \<open>
  \<^verbatim>\<open>extractSelfLabels\<close> of \<^verbatim>\<open>ingest/ingest.go\<close>: \<^verbatim>\<open>json.Unmarshal\<close> into the anonymous
  struct with the labels of a post, and the labels it keeps. Storing follows \<^verbatim>\<open>encoding/json\<close>: a
  member matches a field by its folded name, a repeated member is stored over the earlier one (elements
  of a slice that is filled again keep what they held), \<^verbatim>\<open>null\<close> empties a pointer or a slice and
  leaves a string or a struct alone, and a value of another type is skipped and reported at the end.
\<close>

section \<open>Storing into the struct\<close>

text \<open>Each function takes the JSON value and what the variable holds, and returns whether the value had
  the right type and what the variable holds then.\<close>

definition storeString :: "json \<Rightarrow> string \<Rightarrow> bool \<times> string" where
  "storeString j x = (case j of JString s \<Rightarrow> (True, s) | JNull \<Rightarrow> (True, x) | _ \<Rightarrow> (False, x))"

text \<open>The members of an object, in order, into a struct with one field.\<close>

definition storeField :: "string \<Rightarrow> (json \<Rightarrow> 'a \<Rightarrow> bool \<times> 'a) \<Rightarrow> (string \<times> json) list \<Rightarrow> 'a \<Rightarrow> bool \<times> 'a" where
  "storeField name store kvs x =
     foldl (\<lambda>(ok, x) kv. if matchesField name (fst kv)
                         then (let (ok', x') = store (snd kv) x in (ok \<and> ok', x')) else (ok, x))
       (True, x) kvs"

text \<open>\<^verbatim>\<open>struct { Val string }\<close>\<close>

definition storeLabel :: "json \<Rightarrow> string \<Rightarrow> bool \<times> string" where
  "storeLabel j x =
     (case j of JObject kvs \<Rightarrow> storeField ''val'' storeString kvs x | JNull \<Rightarrow> (True, x) | _ \<Rightarrow> (False, x))"

text \<open>A slice is its backing array as far as it was ever written, and its length.\<close>

type_synonym label_slice = "string list \<times> nat"

fun storeElems :: "nat \<Rightarrow> json list \<Rightarrow> string list \<Rightarrow> bool \<times> string list" where
  "storeElems i [] backing = (True, backing)"
| "storeElems i (j # js) backing =
     (let backing = (if i < length backing then backing else backing @ [[]]);
          (ok, x) = storeLabel j (backing ! i);
          (ok', backing) = storeElems (Suc i) js (backing[i := x])
      in (ok \<and> ok', backing))"

definition storeValues :: "json \<Rightarrow> label_slice \<Rightarrow> bool \<times> label_slice" where
  "storeValues j x =
     (case j of
        JArray js \<Rightarrow>
          if js = [] then (True, ([], 0))
          else (let (ok, backing) = storeElems 0 js (fst x) in (ok, (backing, length js)))
      | JNull \<Rightarrow> (True, ([], 0))
      | _ \<Rightarrow> (False, x))"

text \<open>\<^verbatim>\<open>*struct { Values []... }\<close>; a nil pointer is allocated when a value other than null arrives.\<close>

definition storeLabels :: "json \<Rightarrow> label_slice option \<Rightarrow> bool \<times> label_slice option" where
  "storeLabels j p =
     (let target = (case p of None \<Rightarrow> ([], 0) | Some x \<Rightarrow> x) in
      case j of
        JNull \<Rightarrow> (True, None)
      | JObject kvs \<Rightarrow> (let (ok, x) = storeField ''values'' storeValues kvs target in (ok, Some x))
      | _ \<Rightarrow> (False, Some target))"

definition storePost :: "json \<Rightarrow> label_slice option \<Rightarrow> bool \<times> label_slice option" where
  "storePost j p =
     (case j of JObject kvs \<Rightarrow> storeField ''labels'' storeLabels kvs p | JNull \<Rightarrow> (True, p) | _ \<Rightarrow> (False, p))"

definition unmarshalPost :: "string \<Rightarrow> bool \<times> label_slice option" where
  "unmarshalPost s = (case parseDocument s of None \<Rightarrow> (False, None) | Some j \<Rightarrow> storePost j None)"

definition extractSelfLabels :: "string \<Rightarrow> string list" where
  "extractSelfLabels postJSON =
     (case unmarshalPost postJSON of
        (ok, labels) \<Rightarrow>
          if \<not> ok then []
          else (case labels of
                  None \<Rightarrow> []
                | Some (backing, n) \<Rightarrow> filter (\<lambda>val. val \<noteq> []) (take n backing)))"

section \<open>The labels of a decoded record\<close>

text \<open>The one member of a map that a field matches.\<close>

definition membersOf :: "string \<Rightarrow> (string \<times> cval) list \<Rightarrow> cval list" where
  "membersOf name kvs = map snd (filter (\<lambda>kv. matchesField name (toValidUTF8 (fst kv))) kvs)"

definition labelText :: "cval \<Rightarrow> string option" where
  "labelText v =
     (case v of CMap kvs \<Rightarrow> (case membersOf ''val'' kvs of [CText s] \<Rightarrow> Some s | _ \<Rightarrow> None) | _ \<Rightarrow> None)"

text \<open>The texts at \<^verbatim>\<open>labels.values[].val\<close>; none if there are no labels, \<^const>\<open>None\<close> for a
  record of another shape.\<close>

definition selfLabels :: "cval \<Rightarrow> string list option" where
  "selfLabels v =
     (case v of
        CMap kvs \<Rightarrow>
          (case membersOf ''labels'' kvs of
             [] \<Rightarrow> Some []
           | [CMap lkvs] \<Rightarrow>
               (case membersOf ''values'' lkvs of [CArr els] \<Rightarrow> those (map labelText els) | _ \<Rightarrow> None)
           | _ \<Rightarrow> None)
      | _ \<Rightarrow> None)"

section \<open>Lemmas\<close>

lemma storeField_matching:
  "storeField name store kvs x = storeField name store (filter (\<lambda>kv. matchesField name (fst kv)) kvs) x"
proof -
  have "foldl (\<lambda>(ok, x) kv. if P kv then (let (ok', x') = store (snd kv) x in (ok \<and> ok', x')) else (ok, x)) a kvs
      = foldl (\<lambda>(ok, x) kv. if P kv then (let (ok', x') = store (snd kv) x in (ok \<and> ok', x')) else (ok, x)) a (filter P kvs)"
    for P :: "string \<times> json \<Rightarrow> bool" and a
    by (induction kvs arbitrary: a) auto
  then show ?thesis unfolding storeField_def .
qed

lemma filter_jsonOf:
  "filter (\<lambda>kv. matchesField name (fst kv)) (map (\<lambda>kv. (toValidUTF8 (fst kv), jsonOf (snd kv))) kvs)
   = map (\<lambda>kv. (toValidUTF8 (fst kv), jsonOf (snd kv))) (filter (\<lambda>kv. matchesField name (toValidUTF8 (fst kv))) kvs)"
  by (simp add: filter_map o_def)

lemma storeField_jsonOf:
  "membersOf name kvs = [] \<Longrightarrow>
     storeField name store (map (\<lambda>kv. (toValidUTF8 (fst kv), jsonOf (snd kv))) kvs) x = (True, x)"
  "membersOf name kvs = [v] \<Longrightarrow>
     storeField name store (map (\<lambda>kv. (toValidUTF8 (fst kv), jsonOf (snd kv))) kvs) x = store (jsonOf v) x"
proof -
  define ms where "ms = filter (\<lambda>kv. matchesField name (toValidUTF8 (fst kv))) kvs"
  have all: "\<And>m. m \<in> set ms \<Longrightarrow> matchesField name (toValidUTF8 (fst m))" by (simp add: ms_def)
  have eq: "storeField name store (map (\<lambda>kv. (toValidUTF8 (fst kv), jsonOf (snd kv))) kvs) x
      = storeField name store (map (\<lambda>kv. (toValidUTF8 (fst kv), jsonOf (snd kv))) ms) x"
    using storeField_matching [of name store "map (\<lambda>kv. (toValidUTF8 (fst kv), jsonOf (snd kv))) kvs" x]
    by (simp add: filter_jsonOf ms_def)
  have mem: "membersOf name kvs = map snd ms" by (simp add: membersOf_def ms_def)
  show "membersOf name kvs = [] \<Longrightarrow>
     storeField name store (map (\<lambda>kv. (toValidUTF8 (fst kv), jsonOf (snd kv))) kvs) x = (True, x)"
    unfolding eq mem by (simp add: storeField_def)
  show "membersOf name kvs = [v] \<Longrightarrow>
     storeField name store (map (\<lambda>kv. (toValidUTF8 (fst kv), jsonOf (snd kv))) kvs) x = store (jsonOf v) x"
    unfolding eq mem using all by (cases ms) (auto simp: storeField_def split: prod.splits)
qed

lemma storeLabel_jsonOf: "labelText v = Some s \<Longrightarrow> storeLabel (jsonOf v) x = (True, toValidUTF8 s)"
  by (auto simp: labelText_def storeLabel_def storeField_jsonOf storeString_def split: cval.splits list.splits)

lemma storeElems_jsonOf:
  "those (map labelText els) = Some ss \<Longrightarrow>
     storeElems (length b) (map jsonOf els) b = (True, b @ map toValidUTF8 ss)"
proof (induction els arbitrary: b ss)
  case (Cons v els)
  obtain s ss' where ss: "labelText v = Some s" "those (map labelText els) = Some ss'" "ss = s # ss'"
    using Cons.prems by (auto split: option.splits)
  then show ?case
    using Cons.IH [OF ss(2), of "b @ [toValidUTF8 s]"] by (simp add: storeLabel_jsonOf)
qed simp

lemma those_length: "those xs = Some ys \<Longrightarrow> length ys = length xs"
  by (induction xs arbitrary: ys) (auto split: option.splits)

lemma storeValues_jsonOf:
  "those (map labelText els) = Some ss \<Longrightarrow>
     storeValues (jsonOf (CArr els)) ([], 0) = (True, (map toValidUTF8 ss, length ss))"
  using storeElems_jsonOf [of els ss "[]"] those_length [of "map labelText els" ss]
  by (auto simp: storeValues_def)

lemma storePost_jsonOf:
  assumes "selfLabels v = Some ss"
  shows "storePost (jsonOf v) None = (True, None) \<and> ss = []
    \<or> storePost (jsonOf v) None = (True, Some (map toValidUTF8 ss, length ss))"
proof -
  obtain kvs where v: "v = CMap kvs" using assms by (auto simp: selfLabels_def split: cval.splits)
  show ?thesis
  proof (cases "membersOf ''labels'' kvs = []")
    case True
    with assms v show ?thesis by (simp add: selfLabels_def storePost_def storeField_jsonOf)
  next
    case False
    with assms v obtain lkvs els where
      m: "membersOf ''labels'' kvs = [CMap lkvs]" "membersOf ''values'' lkvs = [CArr els]"
        "those (map labelText els) = Some ss"
      by (auto simp: selfLabels_def split: cval.splits list.splits)
    then show ?thesis
      using storeValues_jsonOf [OF m(3)] v by (simp add: storePost_def storeField_jsonOf storeLabels_def)
  qed
qed

text \<open>The labels survive the way through the JSON text.\<close>

lemma extractSelfLabels_record:
  assumes "wfLib lib" "decodeValue lib (Suc (length data)) data = Inr (v, r)"
    and "nesting v \<le> maxNestingDepth" "selfLabels v = Some ss"
  shows "extractSelfLabels (res_JSON (FastCBORToJSON lib now data rkey))
    = filter (\<lambda>s. s \<noteq> []) (map toValidUTF8 ss)"
proof -
  have "res_JSON (FastCBORToJSON lib now data rkey) = render v"
    using assms(2) by (simp add: FastCBORToJSON_cases del: decodeValue.simps)
  moreover have "parseDocument (render v) = Some (jsonOf v)"
    using assms(1-3) by (rule parseDocument_render)
  ultimately show ?thesis
    using storePost_jsonOf [OF assms(4)] by (auto simp: extractSelfLabels_def unmarshalPost_def)
qed

end
