(* ===== verification/RetryPolicy.thy ===== *)
theory RetryPolicy
  imports GoFloat GoTime
begin

text \<open>
  The retry policy of \<^verbatim>\<open>ingest/valsstore.go\<close>: exponential back-off, the policy for a failed
  \<^verbatim>\<open>PutBatch\<close> (a healthy \<^verbatim>\<open>Busy\<close> refusal is retried for ever, any other failure six times),
  and the state that keeps the two budgets apart. Delays are \<^verbatim>\<open>int64\<close> nanoseconds; the jitter is a
  \<^verbatim>\<open>float64\<close> and its arithmetic is rounded as Go rounds it.
\<close>

section \<open>Policy\<close>

text \<open>All the code asks of an error is \<^verbatim>\<open>errors.Is(err, valsgo.ErrBusy)\<close>.\<close>

datatype put_error = ErrBusy | ErrHard

definition valsHardRetryLimit :: int where "valsHardRetryLimit = 6"
definition valsHardBackoff :: int where "valsHardBackoff = 250 * Millisecond"
definition valsBusyBackoff :: int where "valsBusyBackoff = Second"
definition valsBusyBackoffCap :: int where "valsBusyBackoffCap = 30 * Second"

record retry_policy =
  pol_retry :: bool
  pol_backpressure :: bool
  pol_refresh :: bool
  pol_delay :: int

record retry_state =
  busyAttempts :: int
  hardAttempts :: int

fun backoffLoop :: "int \<Rightarrow> nat \<Rightarrow> int \<Rightarrow> int" where
  "backoffLoop cap 0 delay = (if cap > 0 \<and> delay > cap then cap else delay)"
| "backoffLoop cap (Suc n) delay =
     (if cap > 0 \<and> delay \<ge> cap div 2 then cap else backoffLoop cap n (wrap64 (delay * 2)))"

definition exponentialBackoff :: "int \<Rightarrow> int \<Rightarrow> int \<Rightarrow> int" where
  "exponentialBackoff base cap attempt = backoffLoop cap (nat attempt) base"

definition clampJitter :: "rat \<Rightarrow> rat" where
  "clampJitter jitter = (if jitter < 0 then 0 else if jitter > 1 then 1 else jitter)"

text \<open>\<^verbatim>\<open>time.Duration(float64(delay) * (0.75 + 0.5*jitter))\<close>\<close>

definition scaleDelay :: "int \<Rightarrow> rat \<Rightarrow> int" where
  "scaleDelay delay jitter =
     floatToInt (fl (fl (of_int delay) * fl (3 / 4 + fl (1 / 2 * jitter))))"

definition valsBatchRetryPolicy :: "put_error \<Rightarrow> int \<Rightarrow> rat \<Rightarrow> retry_policy" where
  "valsBatchRetryPolicy err attempt jitter =
     (if err = ErrBusy then
        (let delay = exponentialBackoff valsBusyBackoff valsBusyBackoffCap attempt;
             delay = scaleDelay delay (clampJitter jitter);
             delay = (if delay > valsBusyBackoffCap then valsBusyBackoffCap else delay)
         in \<lparr>pol_retry = True, pol_backpressure = True, pol_refresh = False, pol_delay = delay\<rparr>)
      else if attempt \<ge> valsHardRetryLimit then
        \<lparr>pol_retry = False, pol_backpressure = False, pol_refresh = False, pol_delay = 0\<rparr>
      else
        \<lparr>pol_retry = True, pol_backpressure = False, pol_refresh = True,
         pol_delay = exponentialBackoff valsHardBackoff 0 attempt\<rparr>)"

definition next_retry :: "retry_state \<Rightarrow> put_error \<Rightarrow> rat \<Rightarrow> (retry_policy \<times> int) \<times> retry_state" where
  "next_retry s err jitter =
     (let attempt = (if err = ErrBusy then busyAttempts s else hardAttempts s);
          s' = (if err = ErrBusy then s\<lparr>busyAttempts := wrap64 (busyAttempts s + 1)\<rparr>
                else s\<lparr>hardAttempts := wrap64 (hardAttempts s + 1)\<rparr>)
      in ((valsBatchRetryPolicy err attempt jitter, attempt), s'))"

definition fresh_retry :: retry_state where
  "fresh_retry = \<lparr>busyAttempts = 0, hardAttempts = 0\<rparr>"

section \<open>Lemmas\<close>

lemma backoffLoop_min:
  assumes "even cap" "0 < base" "base \<le> cap" "cap < 2 ^ 62"
  shows "backoffLoop cap n base = min cap (base * 2 ^ n)"
  using assms(2,3)
proof (induction n arbitrary: base)
  case (Suc n)
  show ?case
  proof (cases "cap div 2 \<le> base")
    case True
    then have "cap \<le> base * 2" using assms(1) by presburger
    moreover have "base * 2 \<le> base * 2 ^ Suc n" using Suc.prems(1) by simp
    ultimately have "cap \<le> base * 2 ^ Suc n" by (rule order.trans)
    with True Suc.prems show ?thesis by (simp add: min_def)
  next
    case False
    then have le: "base * 2 \<le> cap" "wrap64 (base * 2) = base * 2"
      using Suc.prems assms(4) by (auto intro!: wrap64_id)
    then have "backoffLoop cap n (base * 2) = min cap (base * 2 * 2 ^ n)"
      using Suc by simp
    with le False show ?thesis by simp
  qed
qed simp

lemma busy_backoff_bounds:
  "valsBusyBackoff \<le> exponentialBackoff valsBusyBackoff valsBusyBackoffCap attempt
   \<and> exponentialBackoff valsBusyBackoff valsBusyBackoffCap attempt \<le> valsBusyBackoffCap"
proof -
  have c: "valsBusyBackoff = 1000000000" "valsBusyBackoffCap = 30000000000"
    by (simp_all add: valsBusyBackoff_def valsBusyBackoffCap_def Second_def Millisecond_def)
  have "exponentialBackoff valsBusyBackoff valsBusyBackoffCap attempt
      = min valsBusyBackoffCap (valsBusyBackoff * 2 ^ nat attempt)"
    unfolding exponentialBackoff_def by (rule backoffLoop_min) (simp_all add: c)
  then show ?thesis by (simp add: c)
qed

lemma fl_jitter_bounds:
  assumes "0 \<le> j" "j \<le> 1"
  shows "3 / 4 \<le> fl (3 / 4 + fl (1 / 2 * j)) \<and> fl (3 / 4 + fl (1 / 2 * j)) \<le> 5 / 4"
proof -
  have half: "0 \<le> fl (1 / 2 * j) \<and> fl (1 / 2 * j) \<le> 1 / 2"
  proof (cases "j = 0")
    case True
    then show ?thesis by (simp add: fl_def)
  next
    case False
    then have "0 < 1 / 2 * j" using assms by simp
    moreover have "1 / 2 * j < 2 powi (53 - int 1)" using assms by (simp add: power_int_def)
    ultimately show ?thesis
      using fl_ge [of 0 1 "1 / 2 * j"] fl_le [of "1 / 2 * j" 1 1] assms by simp
  qed
  let ?x = "3 / 4 + fl (1 / 2 * j)"
  have "0 < ?x" "?x < 2 powi (53 - int 2)" using half by (simp_all add: power_int_def)
  then show ?thesis
    using fl_ge [of 3 2 ?x] fl_le [of ?x 5 2] half by simp
qed

lemma scaleDelay_lower:
  assumes "1000000000 \<le> d" "d \<le> 30000000000" "0 \<le> j" "j \<le> 1"
  shows "750000000 \<le> scaleDelay d j"
proof -
  let ?f = "fl (3 / 4 + fl (1 / 2 * j))"
  have d: "fl (of_int d) = of_int d"
    by (rule fl_dyadic [of _ d 0]) (use assms in \<open>simp_all add: power_int_def\<close>)
  have f: "3 / 4 \<le> ?f" "?f \<le> 5 / 4" using fl_jitter_bounds [OF assms(3,4)] by auto
  have D: "(1000000000 :: rat) \<le> of_int d" "(of_int d :: rat) \<le> 30000000000"
    using assms(1,2) by linarith+
  have lo: "750000000 \<le> of_int d * ?f"
    using mult_mono [of 1000000000 "of_int d" "3 / 4" ?f] D f by simp
  have hi: "of_int d * ?f \<le> 37500000000"
    using mult_mono [of "of_int d" 30000000000 ?f "5 / 4"] D f by simp
  have "of_int 750000000 / 2 ^ 0 \<le> fl (of_int d * ?f)"
    by (rule fl_ge) (use lo hi in \<open>simp_all add: power_int_def\<close>)
  then have "750000000 \<le> floor (fl (of_int d * ?f))" by (simp add: le_floor_iff)
  then show ?thesis unfolding scaleDelay_def d floatToInt_def
    using \<open>of_int 750000000 / 2 ^ 0 \<le> fl (of_int d * ?f)\<close> by simp
qed

lemma hard_backoff:
  "0 \<le> a \<Longrightarrow> a < 6 \<Longrightarrow> exponentialBackoff valsHardBackoff 0 a = 250000000 * 2 ^ nat a"
proof -
  assume "0 \<le> a" "a < 6"
  then have "a \<in> {0, 1, 2, 3, 4, 5}" by auto
  then show ?thesis
    by (elim insertE emptyE)
       (simp_all add: exponentialBackoff_def valsHardBackoff_def Millisecond_def numeral_eq_Suc wrap64_def)
qed

text \<open>The states after a sequence of failures.\<close>

fun afterErrors :: "retry_state \<Rightarrow> (put_error \<times> rat) list \<Rightarrow> retry_state" where
  "afterErrors s [] = s"
| "afterErrors s (e # es) = afterErrors (snd (next_retry s (fst e) (snd e))) es"

lemma afterErrors_hard:
  "0 \<le> hardAttempts s \<Longrightarrow> hardAttempts s + int (length (filter (\<lambda>e. fst e = ErrHard) es)) < 2 ^ 63 \<Longrightarrow>
   hardAttempts (afterErrors s es) = hardAttempts s + int (length (filter (\<lambda>e. fst e = ErrHard) es))"
proof (induction es arbitrary: s)
  case (Cons e es)
  obtain s' where s': "snd (next_retry s (fst e) (snd e)) = s'" by simp
  show ?case
  proof (cases "fst e")
    case ErrBusy
    then have "hardAttempts s' = hardAttempts s" using s' by (auto simp: next_retry_def Let_def)
    with ErrBusy s' Cons.IH [of s'] Cons.prems show ?thesis by simp
  next
    case ErrHard
    then have "hardAttempts s' = hardAttempts s + 1"
      using s' Cons.prems by (auto simp: next_retry_def Let_def)
    with ErrHard s' Cons.IH [of s'] Cons.prems show ?thesis by simp
  qed
qed simp

section \<open>Properties\<close>

text \<open>C30. A \<^verbatim>\<open>Busy\<close> refusal never selects the drop path and never refreshes the routing, and its
  back-off stays between 750 ms and 30 s, whatever the attempt number and the jitter.\<close>

theorem busy_never_drops:
  "pol_retry (valsBatchRetryPolicy ErrBusy attempt jitter)
   \<and> pol_backpressure (valsBatchRetryPolicy ErrBusy attempt jitter)
   \<and> \<not> pol_refresh (valsBatchRetryPolicy ErrBusy attempt jitter)
   \<and> 750 * Millisecond \<le> pol_delay (valsBatchRetryPolicy ErrBusy attempt jitter)
   \<and> pol_delay (valsBatchRetryPolicy ErrBusy attempt jitter) \<le> valsBusyBackoffCap"
proof -
  let ?d = "exponentialBackoff valsBusyBackoff valsBusyBackoffCap attempt"
  have "1000000000 \<le> ?d" "?d \<le> 30000000000"
    using busy_backoff_bounds [of attempt]
    by (auto simp: valsBusyBackoff_def valsBusyBackoffCap_def Second_def Millisecond_def)
  moreover have "0 \<le> clampJitter jitter" "clampJitter jitter \<le> 1" by (auto simp: clampJitter_def)
  ultimately have "750000000 \<le> scaleDelay ?d (clampJitter jitter)" by (rule scaleDelay_lower)
  then show ?thesis
    by (simp add: valsBatchRetryPolicy_def Let_def valsBusyBackoffCap_def Second_def Millisecond_def)
qed

text \<open>The two budgets are independent: after any sequence of failures the policy for the next
  hard failure depends on the number of hard failures before it alone. It retries, with a refresh and
  a delay of 250 ms doubled each time, exactly while that number is below six.\<close>

theorem hard_budget_independent:
  assumes "n = length (filter (\<lambda>e. fst e = ErrHard) es)" "n < 2 ^ 63"
  shows "fst (fst (next_retry (afterErrors fresh_retry es) ErrHard jitter)) =
     (if n < 6 then \<lparr>pol_retry = True, pol_backpressure = False, pol_refresh = True,
                     pol_delay = 250 * Millisecond * 2 ^ n\<rparr>
      else \<lparr>pol_retry = False, pol_backpressure = False, pol_refresh = False, pol_delay = 0\<rparr>)"
proof -
  have "hardAttempts (afterErrors fresh_retry es) = int n"
    using afterErrors_hard [of fresh_retry es] assms by (simp add: fresh_retry_def)
  then show ?thesis
    using hard_backoff [of "int n"]
    by (simp add: next_retry_def Let_def valsBatchRetryPolicy_def valsHardRetryLimit_def Millisecond_def)
qed

theorem hard_budget_independent_witness:
  "pol_retry (fst (fst (next_retry (afterErrors fresh_retry
     [(ErrBusy, 0), (ErrHard, 1), (ErrBusy, 1 / 2)]) ErrHard 0)))"
  using hard_budget_independent [of 1 "[(ErrBusy, 0), (ErrHard, 1), (ErrBusy, 1 / 2)]" 0] by simp

end
