(* ===== verification/Models.thy ===== *)
theory Models
  imports Cbor
begin

text \<open>
  The rows the sinks store (\<^verbatim>\<open>ingest/models.go\<close>, \<^verbatim>\<open>BacklinkRecord\<close> of
  \<^verbatim>\<open>ingest/backlinks.go\<close>) and their JSON as \<^verbatim>\<open>encoding/json\<close> marshals it: strings with HTML
  escaping, times in strict RFC 3339 with an error for a zone of 24 hours or more.
\<close>

section \<open>Rows\<close>

record grecord =
  rec_URI :: string
  rec_DID :: string
  rec_Collection :: string
  rec_Rkey :: string
  rec_Record :: string
  rec_CreatedAt :: gotime
  rec_IndexedAt :: gotime
  rec_Seq :: uint64

record backlink_record =
  blr_Ref :: string
  blr_RefType :: string
  blr_Collection :: string
  blr_Path :: string
  blr_SourceURI :: string
  blr_SourceDID :: string
  blr_CreatedAt :: gotime

section \<open>encoding/json\<close>

definition marshalAscii :: "char \<Rightarrow> string" where
  "marshalAscii b =
     (if b = CHR 0x22 then [CHR 0x5C, CHR 0x22]
      else if b = CHR 0x5C then [CHR 0x5C, CHR 0x5C]
      else if b = CHR 0x08 then [CHR 0x5C, CHR ''b'']
      else if b = CHR 0x0C then [CHR 0x5C, CHR ''f'']
      else if b = CHR 0x0A then [CHR 0x5C, CHR ''n'']
      else if b = CHR 0x0D then [CHR 0x5C, CHR ''r'']
      else if b = CHR 0x09 then [CHR 0x5C, CHR ''t'']
      else if of_char b < (32::nat) \<or> b = CHR ''<'' \<or> b = CHR ''>'' \<or> b = CHR ''&''
      then escapeU (of_char b)
      else [b])"

function marshalChars :: "string \<Rightarrow> string" where
  "marshalChars s =
     (if s = [] then []
      else case decodeValid s of
        None \<Rightarrow> escapeU 65533 @ marshalChars (drop 1 s)
      | Some p \<Rightarrow>
          (if fst p < 128 then marshalAscii (hd s)
           else if fst p = 8232 \<or> fst p = 8233 then escapeU (fst p)
           else take (snd p) s) @ marshalChars (drop (snd p) s))"
  by pat_completeness auto
termination
  using decodeValid_width by (relation "measure length") auto

declare marshalChars.simps [simp del]

definition marshalString :: "string \<Rightarrow> string" where
  "marshalString s = quoted (marshalChars s)"

definition trimZeros :: "string \<Rightarrow> string" where
  "trimZeros s = rev (dropWhile (\<lambda>c. c = CHR ''0'') (rev s))"

definition padZeros :: "nat \<Rightarrow> nat \<Rightarrow> string" where
  "padZeros w n = replicate (w - length (FormatUint n)) CHR ''0'' @ FormatUint n"

definition formatZone :: "int \<Rightarrow> string" where
  "formatZone off =
     (if off = 0 then ''Z''
      else let m = nat \<bar>off\<bar> div 60
           in (if off < 0 then ''-'' else ''+'') @ padZeros 2 (m div 60) @ '':'' @ padZeros 2 (m mod 60))"

text \<open>\<^verbatim>\<open>Time.MarshalJSON\<close>: \<^const>\<open>None\<close> is its error.\<close>

definition marshalTime :: "gotime \<Rightarrow> string option" where
  "marshalTime t =
     (let (y, m, d) = wallDate t; sod = nat ((tsec t + toff t) mod 86400) in
      if y < 0 \<or> 9999 < y \<or> 24 * 3600 \<le> \<bar>toff t\<bar> then None
      else Some (quoted
        (padZeros 4 (nat y) @ ''-'' @ padZeros 2 (nat m) @ ''-'' @ padZeros 2 (nat d) @ ''T'' @
         padZeros 2 (sod div 3600) @ '':'' @ padZeros 2 (sod div 60 mod 60) @ '':'' @ padZeros 2 (sod mod 60) @
         (if tnsec t = 0 then [] else ''.'' @ trimZeros (padZeros 9 (nat (tnsec t)))) @
         formatZone (toff t))))"

definition jsonField :: "string \<Rightarrow> string \<Rightarrow> string" where
  "jsonField name val = quoted name @ '':'' @ val"

definition marshalRecord :: "grecord \<Rightarrow> string option" where
  "marshalRecord r =
     Option.bind (marshalTime (rec_CreatedAt r)) (\<lambda>created.
     Option.bind (marshalTime (rec_IndexedAt r)) (\<lambda>indexed.
       Some (''{'' @ jsonField ''uri'' (marshalString (rec_URI r)) @ '','' @
         jsonField ''did'' (marshalString (rec_DID r)) @ '','' @
         jsonField ''collection'' (marshalString (rec_Collection r)) @ '','' @
         jsonField ''rkey'' (marshalString (rec_Rkey r)) @ '','' @
         jsonField ''record'' (marshalString (rec_Record r)) @ '','' @
         jsonField ''created_at'' created @ '','' @ jsonField ''indexed_at'' indexed @ '','' @
         jsonField ''seq'' (FormatUint (unat (rec_Seq r))) @ ''}'')))"

definition marshalBacklink :: "backlink_record \<Rightarrow> string option" where
  "marshalBacklink b =
     Option.bind (marshalTime (blr_CreatedAt b)) (\<lambda>created.
       Some (''{'' @ jsonField ''Ref'' (marshalString (blr_Ref b)) @ '','' @
         jsonField ''RefType'' (marshalString (blr_RefType b)) @ '','' @
         jsonField ''Collection'' (marshalString (blr_Collection b)) @ '','' @
         jsonField ''Path'' (marshalString (blr_Path b)) @ '','' @
         jsonField ''SourceURI'' (marshalString (blr_SourceURI b)) @ '','' @
         jsonField ''SourceDID'' (marshalString (blr_SourceDID b)) @ '','' @
         jsonField ''CreatedAt'' created @ ''}''))"

lemma marshalTime_zone: "24 * 3600 \<le> \<bar>toff t\<bar> \<Longrightarrow> marshalTime t = None"
  by (auto simp: marshalTime_def Let_def split: prod.splits)

end
