(* ===== verification/Sinks.thy ===== *)
theory Sinks
  imports Prelude
begin

text \<open>
  The interfaces of \<^verbatim>\<open>ingest/store.go\<close>. A sink is a transition system that admits items, holds
  them (buffered, or being inserted) and settles them. \<open>accounted_sink\<close> states that no step loses
  track of an item; \<open>bounded_sink\<close> adds a bound on what is buffered; \<open>closing_sink\<close> adds what a
  successful close promises. The lemmas here hold for every sink; the ClickHouse writers, the delete
  queue and the vals store interpret the locales on their own models.
\<close>

locale accounted_sink =
  fixes step :: "'s \<Rightarrow> 's \<Rightarrow> bool"
    and inv :: "'s \<Rightarrow> bool"
    and admitted :: "'s \<Rightarrow> 'r multiset"
    and held :: "'s \<Rightarrow> 'r multiset"
    and settled :: "'s \<Rightarrow> 'r multiset"
  assumes step_inv: "inv s \<Longrightarrow> step s s' \<Longrightarrow> inv s'"
    and accounts: "inv s \<Longrightarrow> admitted s = held s + settled s"
    and admitted_mono: "inv s \<Longrightarrow> step s s' \<Longrightarrow> admitted s \<subseteq># admitted s'"
    and settled_mono: "inv s \<Longrightarrow> step s s' \<Longrightarrow> settled s \<subseteq># settled s'"
begin

lemma run_inv: "step\<^sup>*\<^sup>* s s' \<Longrightarrow> inv s \<Longrightarrow> inv s'"
  by (induction rule: rtranclp_induct) (auto intro: step_inv)

lemma run_accounts: "step\<^sup>*\<^sup>* s s' \<Longrightarrow> inv s \<Longrightarrow> admitted s' = held s' + settled s'"
  by (simp add: accounts run_inv)

lemma run_settled_mono: "step\<^sup>*\<^sup>* s s' \<Longrightarrow> inv s \<Longrightarrow> settled s \<subseteq># settled s'"
proof (induction rule: rtranclp_induct)
  case (step t u)
  then show ?case using settled_mono [of t u] run_inv [of s t] by (metis subset_mset.order_trans)
qed simp

lemma run_admitted_mono: "step\<^sup>*\<^sup>* s s' \<Longrightarrow> inv s \<Longrightarrow> admitted s \<subseteq># admitted s'"
proof (induction rule: rtranclp_induct)
  case (step t u)
  then show ?case using admitted_mono [of t u] run_inv [of s t] by (metis subset_mset.order_trans)
qed simp

text \<open>Nothing held: everything admitted has been settled, exactly once.\<close>

lemma run_drained: "step\<^sup>*\<^sup>* s s' \<Longrightarrow> inv s \<Longrightarrow> held s' = {#} \<Longrightarrow> settled s' = admitted s'"
  by (simp add: run_accounts)

text \<open>An admitted item is not lost track of: it stays held until it is settled.\<close>

lemma run_tracked:
  "step\<^sup>*\<^sup>* s s' \<Longrightarrow> inv s \<Longrightarrow> x \<in># admitted s \<Longrightarrow> x \<in># held s' + settled s'"
  using run_admitted_mono run_accounts by (metis mset_subset_eqD)

end

locale bounded_sink = accounted_sink step inv admitted held settled
  for step :: "'s \<Rightarrow> 's \<Rightarrow> bool" and inv and admitted :: "'s \<Rightarrow> 'r multiset" and held and settled +
  fixes buffered :: "'s \<Rightarrow> nat" and cap :: nat
  assumes inv_bound: "inv s \<Longrightarrow> buffered s \<le> cap"
begin

lemma run_bound: "step\<^sup>*\<^sup>* s s' \<Longrightarrow> inv s \<Longrightarrow> buffered s' \<le> cap"
  by (simp add: inv_bound run_inv)

end

text \<open>
  What \<^verbatim>\<open>Ingester.CloseContext\<close> relies on: once a sink reports that it has closed, nothing is
  held, and it stays so.
\<close>

locale closing_sink = accounted_sink step inv admitted held settled
  for step :: "'s \<Rightarrow> 's \<Rightarrow> bool" and inv and admitted :: "'s \<Rightarrow> 'r multiset" and held and settled +
  fixes closed :: "'s \<Rightarrow> bool"
  assumes closed_empty: "inv s \<Longrightarrow> closed s \<Longrightarrow> held s = {#}"
    and closed_stays: "inv s \<Longrightarrow> closed s \<Longrightarrow> step s s' \<Longrightarrow> closed s'"
begin

lemma run_closed: "step\<^sup>*\<^sup>* s s' \<Longrightarrow> inv s \<Longrightarrow> closed s \<Longrightarrow> closed s'"
proof (induction rule: rtranclp_induct)
  case (step t u)
  then show ?case using closed_stays [of t u] run_inv [of s t] by blast
qed simp

lemma closed_settled: "step\<^sup>*\<^sup>* s s' \<Longrightarrow> inv s \<Longrightarrow> closed s' \<Longrightarrow> settled s' = admitted s'"
  using closed_empty run_inv by (blast intro: run_drained)

text \<open>After a close nothing more is admitted and nothing that was settled is lost.\<close>

lemma closed_frozen:
  assumes "step\<^sup>*\<^sup>* s s'" "inv s" "closed s"
  shows "settled s' = admitted s'" "settled s \<subseteq># settled s'"
  using assms run_closed closed_settled run_settled_mono by blast+

end

end
