(* ===== verification/ValsStore.thy ===== *)
theory ValsStore
  imports RetryPolicy Models Sinks
begin

text \<open>
  The vals backend (\<^verbatim>\<open>ingest/valsstore.go\<close>) up to the network: keys, the admission buffer with
  its back-pressure, the flush of a buffer in bounded chunks with retries, the ten counters, the
  verdict of \<^verbatim>\<open>CloseContext\<close>, deletes and the cursor. The vals client is not under
  \<^verbatim>\<open>src/\<close>: the outcome of every call to it is an argument.

  Producers, the flush loop, its two zone goroutines and the shutdown run concurrently; every
  section the code executes under \<^verbatim>\<open>s.mu\<close> is one operation here, and \<open>vals_step\<close> of theory
  ValsSystem interleaves them.
\<close>

section \<open>Keys\<close>

definition recordKey :: "string \<Rightarrow> string \<Rightarrow> string \<Rightarrow> string" where
  "recordKey collection did rkey = collection @ ''/'' @ did @ ''/'' @ rkey"

definition uriToRecordKey :: "string \<Rightarrow> string option" where
  "uriToRecordKey uri =
     (case CutPrefix uri ''at://'' of
        None \<Rightarrow> None
      | Some rest \<Rightarrow>
          (let parts = SplitN rest CHR ''/'' 3
           in if length parts \<noteq> 3 then None
              else Some (recordKey (parts ! 1) (parts ! 0) (parts ! 2))))"

definition backlinkKey :: "backlink_record \<Rightarrow> string" where
  "backlinkKey bl = blr_Ref bl @ [CHR 0x00] @ blr_SourceURI bl @ [CHR 0x00] @ blr_Path bl"

section \<open>State\<close>

abbreviation (input) valsFlushSize :: nat where "valsFlushSize \<equiv> 2000"
abbreviation (input) valsMaxBatch :: nat where "valsMaxBatch \<equiv> 1000"
abbreviation (input) valsBufferCap :: nat where "valsBufferCap \<equiv> 50000"

text \<open>The two zones, \<^verbatim>\<open>valsRecordZone\<close> and \<^verbatim>\<open>valsBacklinkZone\<close>.\<close>

datatype zone = Records | Backlinks

record kv =
  Key :: string
  Val :: string

text \<open>
  \<open>vs_flushNow\<close> is whether the one-slot channel holds a token; \<open>vs_done\<close> and \<open>vs_wake\<close> are whether
  those channels are closed; \<open>vs_shutdown\<close> is whether \<^verbatim>\<open>shutdownCtx\<close> is set.
\<close>

record vals_store =
  vs_records :: "kv list"
  vs_links :: "kv list"
  vs_closed :: bool
  vs_shutdown :: bool
  vs_wake :: bool
  vs_flushNow :: bool
  vs_done :: bool
  admittedRecords :: uint64
  admittedBacklinks :: uint64
  persistedRecords :: uint64
  persistedLinks :: uint64
  droppedRecords :: uint64
  droppedLinks :: uint64
  rejectedRecords :: uint64
  rejectedLinks :: uint64
  inflightRecords :: uint64
  inflightLinks :: uint64

definition NewValsStore :: vals_store where
  "NewValsStore =
     \<lparr>vs_records = [], vs_links = [], vs_closed = False, vs_shutdown = False, vs_wake = False,
      vs_flushNow = False, vs_done = False,
      admittedRecords = 0, admittedBacklinks = 0, persistedRecords = 0, persistedLinks = 0,
      droppedRecords = 0, droppedLinks = 0, rejectedRecords = 0, rejectedLinks = 0,
      inflightRecords = 0, inflightLinks = 0\<rparr>"

definition buffered :: "vals_store \<Rightarrow> nat" where
  "buffered s = length (vs_records s) + length (vs_links s)"

section \<open>Admission\<close>

definition appendZone :: "zone \<Rightarrow> kv \<Rightarrow> vals_store \<Rightarrow> vals_store" where
  "appendZone z kv s = (case z of
     Records \<Rightarrow> s\<lparr>vs_records := vs_records s @ [kv], admittedRecords := admittedRecords s + 1\<rparr>
   | Backlinks \<Rightarrow> s\<lparr>vs_links := vs_links s @ [kv], admittedBacklinks := admittedBacklinks s + 1\<rparr>)"

definition rejectZone :: "zone \<Rightarrow> vals_store \<Rightarrow> vals_store" where
  "rejectZone z s = (case z of
     Records \<Rightarrow> s\<lparr>rejectedRecords := rejectedRecords s + 1\<rparr>
   | Backlinks \<Rightarrow> s\<lparr>rejectedLinks := rejectedLinks s + 1\<rparr>)"

text \<open>\<^const>\<open>None\<close>: the producer waits on \<^verbatim>\<open>s.drain\<close>.\<close>

definition push :: "zone \<Rightarrow> kv \<Rightarrow> vals_store \<Rightarrow> vals_store option" where
  "push z kv s =
     (if \<not> vs_closed s \<and> buffered s \<ge> valsBufferCap then None
      else if vs_closed s then Some (rejectZone z s)
      else let s' = appendZone z kv s
           in Some (if buffered s' \<ge> valsFlushSize then s'\<lparr>vs_flushNow := True\<rparr> else s'))"

text \<open>A record that does not marshal is logged and skipped; so is a backlink.\<close>

definition WriteRecord :: "grecord \<Rightarrow> vals_store \<Rightarrow> vals_store option" where
  "WriteRecord r s =
     (case marshalRecord r of
        None \<Rightarrow> Some s
      | Some blob \<Rightarrow>
          push Records \<lparr>Key = recordKey (rec_Collection r) (rec_DID r) (rec_Rkey r), Val = blob\<rparr> s)"

fun Write :: "backlink_record list \<Rightarrow> vals_store \<Rightarrow> vals_store option" where
  "Write [] s = Some s"
| "Write (bl # bls) s =
     (case marshalBacklink bl of
        None \<Rightarrow> Write bls s
      | Some blob \<Rightarrow>
          Option.bind (push Backlinks \<lparr>Key = backlinkKey bl, Val = blob\<rparr> s) (Write bls))"

section \<open>Flushing\<close>

text \<open>The locked section of \<^verbatim>\<open>flush\<close>.\<close>

definition flushTake :: "vals_store \<Rightarrow> (kv list \<times> kv list) \<times> vals_store" where
  "flushTake s =
     ((vs_records s, vs_links s),
      s\<lparr>vs_records := [], vs_links := [],
        inflightRecords := inflightRecords s + of_nat (length (vs_records s)),
        inflightLinks := inflightLinks s + of_nat (length (vs_links s))\<rparr>)"

definition accountChunk :: "zone \<Rightarrow> uint64 \<Rightarrow> bool \<Rightarrow> vals_store \<Rightarrow> vals_store" where
  "accountChunk z entries persisted s = (case z of
     Records \<Rightarrow>
       (let s = s\<lparr>inflightRecords := inflightRecords s - entries\<rparr>
        in if persisted then s\<lparr>persistedRecords := persistedRecords s + entries\<rparr>
           else s\<lparr>droppedRecords := droppedRecords s + entries\<rparr>)
   | Backlinks \<Rightarrow>
       (let s = s\<lparr>inflightLinks := inflightLinks s - entries\<rparr>
        in if persisted then s\<lparr>persistedLinks := persistedLinks s + entries\<rparr>
           else s\<lparr>droppedLinks := droppedLinks s + entries\<rparr>))"

text \<open>
  One turn of the retry loop: what \<^verbatim>\<open>PutBatch\<close> answers (\<^const>\<open>None\<close> is success), the jitter
  drawn, whether \<^verbatim>\<open>flushContext\<close> sees a shutdown deadline, and what ends the wait: the timer, or
  the other arm of the \<^verbatim>\<open>select\<close>. That arm is the wake channel before the shutdown begins (the
  deadline is then read again, and has expired or not) and the deadline itself afterwards.
\<close>

datatype wait_end = TimerFired | Interrupted bool

record turn =
  t_answer :: "put_error option"
  t_jitter :: rat
  t_shutdown :: bool
  t_end :: wait_end

datatype client_call = CallPutBatch | CallRefresh

fun flushLoopTurns :: "turn list \<Rightarrow> retry_state \<Rightarrow> client_call list \<times> bool option" where
  "flushLoopTurns [] retries = ([], None)"
| "flushLoopTurns (t # ts) retries =
     (case t_answer t of
        None \<Rightarrow> ([CallPutBatch], Some True)
      | Some err \<Rightarrow>
          (let ((policy, attempt), retries') = next_retry retries err (t_jitter t) in
           if \<not> pol_retry policy then ([CallPutBatch], Some False)
           else
             (case t_end t of
                TimerFired \<Rightarrow>
                  (let (calls, r) = flushLoopTurns ts retries'
                   in (CallPutBatch # (if pol_refresh policy then [CallRefresh] else []) @ calls, r))
              | Interrupted expired \<Rightarrow>
                  if t_shutdown t \<or> expired then ([CallPutBatch], Some False)
                  else (let (calls, r) = flushLoopTurns ts retries' in (CallPutBatch # calls, r)))))"

definition flushChunk :: "turn list \<Rightarrow> kv list \<Rightarrow> client_call list \<times> bool option" where
  "flushChunk ts kvs = (if kvs = [] then ([], Some True) else flushLoopTurns ts fresh_retry)"

text \<open>\<^verbatim>\<open>flushBatch\<close>: each chunk is written, then accounted, in order; \<^const>\<open>None\<close> when the
  given turns leave a chunk undecided.\<close>

fun flushChunks :: "zone \<Rightarrow> kv list list \<Rightarrow> turn list list \<Rightarrow> vals_store \<Rightarrow> vals_store option" where
  "flushChunks z [] envs s = Some s"
| "flushChunks z (c # cs) envs s =
     (case snd (flushChunk (hd (envs @ [[]])) c) of
        None \<Rightarrow> None
      | Some persisted \<Rightarrow>
          flushChunks z cs (tl envs) (accountChunk z (of_nat (length c)) persisted s))"

definition flushBatch :: "zone \<Rightarrow> kv list \<Rightarrow> turn list list \<Rightarrow> vals_store \<Rightarrow> vals_store option" where
  "flushBatch z kvs = flushChunks z (chunks valsMaxBatch kvs)"

section \<open>Shutdown\<close>

definition BeginShutdown :: "vals_store \<Rightarrow> vals_store" where
  "BeginShutdown s = s\<lparr>vs_shutdown := True, vs_wake := True\<rparr>"

text \<open>The locked section of \<^verbatim>\<open>CloseContext\<close>, after \<^verbatim>\<open>BeginShutdown\<close>.\<close>

definition markClosed :: "vals_store \<Rightarrow> vals_store" where
  "markClosed s = (if vs_closed s then s else s\<lparr>vs_closed := True, vs_done := True\<rparr>)"

record vals_stats =
  st_AdmittedRecords :: uint64
  st_AdmittedBacklinks :: uint64
  st_PersistedRecords :: uint64
  st_PersistedBacklinks :: uint64
  st_DroppedRecords :: uint64
  st_DroppedBacklinks :: uint64
  st_RejectedRecords :: uint64
  st_RejectedBacklinks :: uint64
  st_BufferedRecords :: uint64
  st_BufferedBacklinks :: uint64
  st_InflightRecords :: uint64
  st_InflightBacklinks :: uint64

definition Stats :: "vals_store \<Rightarrow> vals_stats" where
  "Stats s =
     \<lparr>st_AdmittedRecords = admittedRecords s, st_AdmittedBacklinks = admittedBacklinks s,
      st_PersistedRecords = persistedRecords s, st_PersistedBacklinks = persistedLinks s,
      st_DroppedRecords = droppedRecords s, st_DroppedBacklinks = droppedLinks s,
      st_RejectedRecords = rejectedRecords s, st_RejectedBacklinks = rejectedLinks s,
      st_BufferedRecords = of_nat (length (vs_records s)),
      st_BufferedBacklinks = of_nat (length (vs_links s)),
      st_InflightRecords = inflightRecords s, st_InflightBacklinks = inflightLinks s\<rparr>"

text \<open>The error of an incomplete close: what remains, what is lost, and whether the deadline expired.\<close>

datatype close_error = DrainIncomplete uint64 uint64 bool

definition closeVerdict :: "bool \<Rightarrow> vals_stats \<Rightarrow> close_error option" where
  "closeVerdict expired st =
     (let remaining = st_BufferedRecords st + st_BufferedBacklinks st
                    + st_InflightRecords st + st_InflightBacklinks st;
          lost = st_DroppedRecords st + st_DroppedBacklinks st
               + st_RejectedRecords st + st_RejectedBacklinks st
      in if expired then Some (DrainIncomplete remaining lost True)
         else if remaining \<noteq> 0 \<or> lost \<noteq> 0 then Some (DrainIncomplete remaining lost False)
         else None)"

section \<open>Deletes and the cursor\<close>

text \<open>
  The calls of \<^verbatim>\<open>valsClient\<close> that these operations make, as functions on a client state
  \<^typ>\<open>'c\<close> the development knows nothing about: a put and a delete answer whether they succeeded,
  a get answers \<^const>\<open>None\<close> for an error and otherwise the value, if there is one. The versions
  the client also returns are ignored by the code.
\<close>

record 'c vals_client =
  vc_Put :: "string \<Rightarrow> string \<Rightarrow> string \<Rightarrow> 'c \<Rightarrow> bool \<times> 'c"
  vc_Delete :: "string \<Rightarrow> string \<Rightarrow> 'c \<Rightarrow> bool \<times> 'c"
  vc_Get :: "string \<Rightarrow> string \<Rightarrow> 'c \<Rightarrow> string option option \<times> 'c"

definition QueueRecordDelete :: "'c vals_client \<Rightarrow> string \<Rightarrow> 'c \<Rightarrow> 'c" where
  "QueueRecordDelete cl uri c =
     (case uriToRecordKey uri of
        None \<Rightarrow> c
      | Some key \<Rightarrow> snd (vc_Delete cl ''records'' key c))"

definition QueueBacklinkDelete :: "'c vals_client \<Rightarrow> string \<Rightarrow> 'c \<Rightarrow> 'c" where
  "QueueBacklinkDelete cl uri c = c"

datatype cursor_error = GetFailed | BadCursorValue string | PutFailed | CursorDeadline

definition valsCursorKey :: string where "valsCursorKey = ''cursor/firehose''"

definition LoadCursor :: "'c vals_client \<Rightarrow> 'c \<Rightarrow> (cursor_error + int) \<times> 'c" where
  "LoadCursor cl c =
     (let (answer, c') = vc_Get cl '''' valsCursorKey c in
      (case answer of
         None \<Rightarrow> Inl GetFailed
       | Some None \<Rightarrow> Inr 0
       | Some (Some val) \<Rightarrow>
           (case ParseInt val of None \<Rightarrow> Inl (BadCursorValue val) | Some i \<Rightarrow> Inr i), c'))"

text \<open>
  \<^verbatim>\<open>SaveCursor\<close> returns what the \<^verbatim>\<open>select\<close> picks: the answer of the put, or the deadline
  (\<open>expired\<close>). The put goes on after the deadline, so its effect does not depend on what is returned.
\<close>

definition SaveCursor :: "'c vals_client \<Rightarrow> bool \<Rightarrow> int \<Rightarrow> 'c \<Rightarrow> cursor_error option \<times> 'c" where
  "SaveCursor cl expired cursor c =
     (let (ok, c') = vc_Put cl '''' valsCursorKey (FormatInt cursor) c
      in (if expired then Some CursorDeadline else if \<not> ok then Some PutFailed else None, c'))"

end
