(* ===== verification/ValsStart.thy ===== *)
theory ValsStart
  imports ValsStore
begin

text \<open>
  The start of the vals store (\<^verbatim>\<open>NewValsStore\<close> of \<^verbatim>\<open>ingest/valsstore.go\<close>): dial the cluster,
  wait for the two zones, at most fifteen seconds, and build the store. The cluster and the clock answer
  through a list of polls, one for each turn of the loop; instants and durations are nanoseconds.
\<close>

section \<open>The wait\<close>

definition valsRecordZone :: string where "valsRecordZone = ''records''"
definition valsBacklinkZone :: string where "valsBacklinkZone = ''backlinks''"

fun contains :: "string list \<Rightarrow> string \<Rightarrow> bool" where
  "contains [] want = False"
| "contains (x # xs) want = (if x = want then True else contains xs want)"

text \<open>One turn: the zones the cluster names, and the clock if it is read.\<close>

record poll =
  po_zones :: "string list"
  po_now :: int

definition zonesReady :: "poll \<Rightarrow> bool" where
  "zonesReady p \<longleftrightarrow> contains (po_zones p) valsRecordZone \<and> contains (po_zones p) valsBacklinkZone"

datatype zone_wait = ZonesFound | ZonesMissing | StillWaiting

definition zoneTimeout :: int where "zoneTimeout = 15 * Second"
definition zonePause :: int where "zonePause = 200 * Millisecond"

text \<open>The result and the number of pauses, each followed by a \<^verbatim>\<open>Refresh\<close>.\<close>

fun waitZones :: "int \<Rightarrow> poll list \<Rightarrow> zone_wait \<times> nat" where
  "waitZones deadline [] = (StillWaiting, 0)"
| "waitZones deadline (p # ps) =
     (if zonesReady p then (ZonesFound, 0)
      else if po_now p > deadline then (ZonesMissing, 0)
      else (let (r, n) = waitZones deadline ps in (r, Suc n)))"

datatype vals_start_error = DialFailed | MissingZones

text \<open>\<^const>\<open>None\<close> while the loop is still waiting.\<close>

definition startValsStore :: "bool \<Rightarrow> int \<Rightarrow> poll list \<Rightarrow> (vals_start_error + vals_store) option" where
  "startValsStore dialed start polls =
     (if \<not> dialed then Some (Inl DialFailed)
      else (case fst (waitZones (start + zoneTimeout) polls) of
              ZonesFound \<Rightarrow> Some (Inr NewValsStore)
            | ZonesMissing \<Rightarrow> Some (Inl MissingZones)
            | StillWaiting \<Rightarrow> None))"

section \<open>Lemmas\<close>

lemma contains_iff: "contains xs want \<longleftrightarrow> want \<in> set xs"
  by (induction xs) auto

text \<open>The wait ends at the first turn that sees both zones or comes after the deadline.\<close>

lemma waitZones_stops:
  assumes "k < length ps" "\<forall>j < k. \<not> zonesReady (ps ! j) \<and> po_now (ps ! j) \<le> deadline"
    and "zonesReady (ps ! k) \<or> po_now (ps ! k) > deadline"
  shows "waitZones deadline ps = (if zonesReady (ps ! k) then ZonesFound else ZonesMissing, k)"
  using assms
proof (induction k arbitrary: ps)
  case 0
  then show ?case by (cases ps) auto
next
  case (Suc k)
  obtain p qs where ps: "ps = p # qs" using Suc.prems(1) by (cases ps) auto
  have "waitZones deadline qs = (if zonesReady (qs ! k) then ZonesFound else ZonesMissing, k)"
    using Suc.prems by (intro Suc.IH) (auto simp: ps)
  moreover have "\<not> zonesReady p \<and> po_now p \<le> deadline" using Suc.prems(2) ps by force
  ultimately show ?case by (simp add: ps)
qed

text \<open>A turn takes at least the pause.\<close>

definition pacedFrom :: "int \<Rightarrow> poll list \<Rightarrow> bool" where
  "pacedFrom start ps \<longleftrightarrow> (\<forall>k < length ps. start + int k * zonePause \<le> po_now (ps ! k))"

section \<open>Properties\<close>

text \<open>C34. The start of the vals store ends: with a clock that advances by the pause in every turn, the wait
  is decided within 76 pauses, by the first turn that finds both zones or is past the deadline; the store
  starts exactly if that turn finds both zones, and then it is the empty store.\<close>

theorem vals_start_ends:
  assumes "pacedFrom start ps" "76 < length ps"
  shows "\<exists>k \<le> 76. (\<forall>j < k. \<not> (valsRecordZone \<in> set (po_zones (ps ! j)) \<and> valsBacklinkZone \<in> set (po_zones (ps ! j))))
      \<and> waitZones (start + zoneTimeout) ps =
          (if valsRecordZone \<in> set (po_zones (ps ! k)) \<and> valsBacklinkZone \<in> set (po_zones (ps ! k))
           then ZonesFound else ZonesMissing, k)
      \<and> startValsStore True start ps =
          Some (if valsRecordZone \<in> set (po_zones (ps ! k)) \<and> valsBacklinkZone \<in> set (po_zones (ps ! k))
                then Inr NewValsStore else Inl MissingZones)"
proof -
  define stops where "stops k \<longleftrightarrow> zonesReady (ps ! k) \<or> po_now (ps ! k) > start + zoneTimeout" for k
  have "start + int 76 * zonePause \<le> po_now (ps ! 76)" using assms unfolding pacedFrom_def by blast
  then have "stops 76" by (simp add: stops_def zoneTimeout_def zonePause_def Second_def Millisecond_def)
  define k where "k = (LEAST k. stops k)"
  have k: "stops k" "k \<le> 76" "\<forall>j < k. \<not> stops j"
    using \<open>stops 76\<close> unfolding k_def by (auto intro: LeastI Least_le dest: not_less_Least)
  have w: "waitZones (start + zoneTimeout) ps = (if zonesReady (ps ! k) then ZonesFound else ZonesMissing, k)"
    using k assms(2) by (intro waitZones_stops) (auto simp: stops_def)
  show ?thesis
    using k w by (intro exI [of _ k]) (auto simp: startValsStore_def zonesReady_def contains_iff stops_def)
qed

definition demoPolls :: "poll list" where
  "demoPolls = map (\<lambda>k. \<lparr>po_zones = [''records''], po_now = int k * zonePause\<rparr>) [0..<80]"

lemma demoPolls_nth: "k < 80 \<Longrightarrow> demoPolls ! k = \<lparr>po_zones = [''records''], po_now = int k * zonePause\<rparr>"
  unfolding demoPolls_def by (subst nth_map) simp_all

lemma demoPolls_length: "length demoPolls = 80"
  unfolding demoPolls_def length_map length_upt by simp

theorem vals_start_ends_witness:
  "startValsStore True 0 demoPolls = Some (Inl MissingZones)"
proof -
  have "pacedFrom 0 demoPolls" "76 < length demoPolls"
    by (auto simp: pacedFrom_def demoPolls_length demoPolls_nth)
  from vals_start_ends [OF this] obtain k where k: "k \<le> 76"
    "startValsStore True 0 demoPolls =
          Some (if valsRecordZone \<in> set (po_zones (demoPolls ! k)) \<and> valsBacklinkZone \<in> set (po_zones (demoPolls ! k))
                then Inr NewValsStore else Inl MissingZones)"
    by blast
  moreover have "demoPolls ! k = \<lparr>po_zones = [''records''], po_now = int k * zonePause\<rparr>"
    using k(1) by (simp add: demoPolls_nth)
  ultimately show ?thesis by (simp add: valsBacklinkZone_def)
qed

end
