(* ===== verification/ValsSystem.thy ===== *)
theory ValsSystem
  imports ValsStore
begin

text \<open>
  The vals store at work: producers, the flush loop, its two zone goroutines and the shutdown as one
  step relation, with a history of what each zone admitted, settled and rejected. The invariant ties
  the ten counters, the buffers and the chunks in flight to that history; the sink interfaces of
  theory Sinks are interpreted on it.
\<close>

section \<open>Steps\<close>

datatype flusher = Idle | Draining bool | Exited

text \<open>
  \<open>pending z\<close> are the chunks the zone's goroutine has still to write. \<open>admitted\<close>, \<open>settled\<close> (with
  whether the entry was persisted) and \<open>rejected\<close> are the history.
\<close>

record vals_sys =
  store :: vals_store
  flusher :: flusher
  pending :: "zone \<Rightarrow> kv list list"
  admitted :: "zone \<Rightarrow> kv list"
  settled :: "zone \<Rightarrow> (kv \<times> bool) list"
  rejected :: "zone \<Rightarrow> kv list"

definition initialSys :: vals_sys where
  "initialSys = \<lparr>store = NewValsStore, flusher = Idle, pending = (\<lambda>_. []), admitted = (\<lambda>_. []),
     settled = (\<lambda>_. []), rejected = (\<lambda>_. [])\<rparr>"

definition bufferOf :: "zone \<Rightarrow> vals_store \<Rightarrow> kv list" where
  "bufferOf z s = (case z of Records \<Rightarrow> vs_records s | Backlinks \<Rightarrow> vs_links s)"

text \<open>The flush loop takes the buffers; \<open>final\<close> is the drain after \<^verbatim>\<open>done\<close>.\<close>

definition beginFlush :: "bool \<Rightarrow> vals_sys \<Rightarrow> vals_sys" where
  "beginFlush final s =
     (let ((rs, ls), st) = flushTake (store s)
      in s\<lparr>store := st, flusher := Draining final,
           pending := (\<lambda>z. chunks valsMaxBatch (case z of Records \<Rightarrow> rs | Backlinks \<Rightarrow> ls))\<rparr>)"

inductive vals_step :: "vals_sys \<Rightarrow> vals_sys \<Rightarrow> bool" where
  Admit: "\<not> vs_closed (store s) \<Longrightarrow> push z e (store s) = Some st \<Longrightarrow>
    vals_step s (s\<lparr>store := st, admitted := (admitted s)(z := admitted s z @ [e])\<rparr>)"
| Reject: "vs_closed (store s) \<Longrightarrow> push z e (store s) = Some st \<Longrightarrow>
    vals_step s (s\<lparr>store := st, rejected := (rejected s)(z := rejected s z @ [e])\<rparr>)"
| Tick: "flusher s = Idle \<Longrightarrow> vals_step s (beginFlush False s)"
| Signal: "flusher s = Idle \<Longrightarrow> vs_flushNow (store s) \<Longrightarrow>
    vals_step s (beginFlush False (s\<lparr>store := (store s)\<lparr>vs_flushNow := False\<rparr>\<rparr>))"
| Done: "flusher s = Idle \<Longrightarrow> vs_done (store s) \<Longrightarrow> vals_step s (beginFlush True s)"
| Chunk: "flusher s = Draining final \<Longrightarrow> pending s z = c # cs \<Longrightarrow>
    snd (flushChunk ts c) = Some persisted \<Longrightarrow>
    vals_step s (s\<lparr>store := accountChunk z (of_nat (length c)) persisted (store s),
      pending := (pending s)(z := cs),
      settled := (settled s)(z := settled s z @ map (\<lambda>e. (e, persisted)) c)\<rparr>)"
| Flushed: "flusher s = Draining final \<Longrightarrow> pending s Records = [] \<Longrightarrow> pending s Backlinks = [] \<Longrightarrow>
    vals_step s (s\<lparr>flusher := (if final then Exited else Idle)\<rparr>)"
| Shutdown: "vals_step s (s\<lparr>store := BeginShutdown (store s)\<rparr>)"
| Close: "vals_step s (s\<lparr>store := markClosed (BeginShutdown (store s))\<rparr>)"

inductive_cases vals_stepE: "vals_step s t"

section \<open>Invariant\<close>

definition admittedOf :: "zone \<Rightarrow> vals_store \<Rightarrow> uint64" where
  "admittedOf z s = (case z of Records \<Rightarrow> admittedRecords s | Backlinks \<Rightarrow> admittedBacklinks s)"
definition persistedOf :: "zone \<Rightarrow> vals_store \<Rightarrow> uint64" where
  "persistedOf z s = (case z of Records \<Rightarrow> persistedRecords s | Backlinks \<Rightarrow> persistedLinks s)"
definition droppedOf :: "zone \<Rightarrow> vals_store \<Rightarrow> uint64" where
  "droppedOf z s = (case z of Records \<Rightarrow> droppedRecords s | Backlinks \<Rightarrow> droppedLinks s)"
definition rejectedOf :: "zone \<Rightarrow> vals_store \<Rightarrow> uint64" where
  "rejectedOf z s = (case z of Records \<Rightarrow> rejectedRecords s | Backlinks \<Rightarrow> rejectedLinks s)"
definition inflightOf :: "zone \<Rightarrow> vals_store \<Rightarrow> uint64" where
  "inflightOf z s = (case z of Records \<Rightarrow> inflightRecords s | Backlinks \<Rightarrow> inflightLinks s)"

lemmas zone_views = bufferOf_def admittedOf_def persistedOf_def droppedOf_def rejectedOf_def inflightOf_def

definition inflight :: "vals_sys \<Rightarrow> zone \<Rightarrow> kv list" where
  "inflight s z = concat (pending s z)"

definition persistedLog :: "vals_sys \<Rightarrow> zone \<Rightarrow> kv list" where
  "persistedLog s z = map fst (filter snd (settled s z))"

definition droppedLog :: "vals_sys \<Rightarrow> zone \<Rightarrow> kv list" where
  "droppedLog s z = map fst (filter (\<lambda>p. \<not> snd p) (settled s z))"

definition zone_inv :: "vals_sys \<Rightarrow> zone \<Rightarrow> bool" where
  "zone_inv s z \<longleftrightarrow>
     admitted s z = map fst (settled s z) @ inflight s z @ bufferOf z (store s)
   \<and> admittedOf z (store s) = of_nat (length (admitted s z))
   \<and> persistedOf z (store s) = of_nat (length (persistedLog s z))
   \<and> droppedOf z (store s) = of_nat (length (droppedLog s z))
   \<and> rejectedOf z (store s) = of_nat (length (rejected s z))
   \<and> inflightOf z (store s) = of_nat (length (inflight s z))"

definition vals_inv :: "vals_sys \<Rightarrow> bool" where
  "vals_inv s \<longleftrightarrow>
     (\<forall>z. zone_inv s z)
   \<and> buffered (store s) \<le> valsBufferCap
   \<and> (vs_closed (store s) \<longleftrightarrow> vs_done (store s))
   \<and> (\<forall>z. \<forall>c \<in> set (pending s z). c \<noteq> [] \<and> length c \<le> valsMaxBatch)
   \<and> (case flusher s of
        Idle \<Rightarrow> \<forall>z. pending s z = []
      | Draining final \<Rightarrow> final \<longrightarrow> vs_closed (store s) \<and> buffered (store s) = 0
      | Exited \<Rightarrow> vs_closed (store s) \<and> buffered (store s) = 0 \<and> (\<forall>z. pending s z = []))"

lemma zone_all: "(\<forall>z. P z) \<longleftrightarrow> P Records \<and> P Backlinks"
  by (metis zone.exhaust)

lemma buffered_zone: "buffered s = 0 \<longleftrightarrow> (\<forall>z. bufferOf z s = [])"
  by (simp add: buffered_def bufferOf_def zone_all)

lemma initial_inv [inv_intros]: "vals_inv initialSys"
  by (simp add: vals_inv_def zone_inv_def zone_views initialSys_def NewValsStore_def buffered_def
      inflight_def persistedLog_def droppedLog_def split: zone.splits)

lemma push_admits:
  assumes "push z e st = Some st'" "\<not> vs_closed st"
  shows "bufferOf z' st' = bufferOf z' st @ (if z' = z then [e] else [])"
    and "admittedOf z' st' = admittedOf z' st + (if z' = z then 1 else 0)"
    and "persistedOf z' st' = persistedOf z' st" "droppedOf z' st' = droppedOf z' st"
    and "rejectedOf z' st' = rejectedOf z' st" "inflightOf z' st' = inflightOf z' st"
    and "buffered st' = Suc (buffered st)" "buffered st < valsBufferCap"
    and "vs_closed st' = vs_closed st" "vs_done st' = vs_done st"
  using assms
  by (auto simp: push_def appendZone_def Let_def zone_views buffered_def split: if_splits zone.splits)

lemma push_rejects:
  assumes "push z e st = Some st'" "vs_closed st"
  shows "bufferOf z' st' = bufferOf z' st" "admittedOf z' st' = admittedOf z' st"
    and "persistedOf z' st' = persistedOf z' st" "droppedOf z' st' = droppedOf z' st"
    and "rejectedOf z' st' = rejectedOf z' st + (if z' = z then 1 else 0)"
    and "inflightOf z' st' = inflightOf z' st"
    and "buffered st' = buffered st" "vs_closed st' = vs_closed st" "vs_done st' = vs_done st"
  using assms by (auto simp: push_def rejectZone_def zone_views buffered_def split: zone.splits)

lemma accountChunk_views:
  "bufferOf z' (accountChunk z n b st) = bufferOf z' st"
  "admittedOf z' (accountChunk z n b st) = admittedOf z' st"
  "rejectedOf z' (accountChunk z n b st) = rejectedOf z' st"
  "persistedOf z' (accountChunk z n b st) = persistedOf z' st + (if z' = z \<and> b then n else 0)"
  "droppedOf z' (accountChunk z n b st) = droppedOf z' st + (if z' = z \<and> \<not> b then n else 0)"
  "inflightOf z' (accountChunk z n b st) = inflightOf z' st - (if z' = z then n else 0)"
  "buffered (accountChunk z n b st) = buffered st"
  "vs_closed (accountChunk z n b st) = vs_closed st"
  "vs_done (accountChunk z n b st) = vs_done st"
  by (auto simp: accountChunk_def Let_def zone_views buffered_def split: zone.splits)

lemma close_views [simp]:
  "bufferOf z (BeginShutdown st) = bufferOf z st" "bufferOf z (markClosed st) = bufferOf z st"
  "admittedOf z (BeginShutdown st) = admittedOf z st" "admittedOf z (markClosed st) = admittedOf z st"
  "persistedOf z (BeginShutdown st) = persistedOf z st" "persistedOf z (markClosed st) = persistedOf z st"
  "droppedOf z (BeginShutdown st) = droppedOf z st" "droppedOf z (markClosed st) = droppedOf z st"
  "rejectedOf z (BeginShutdown st) = rejectedOf z st" "rejectedOf z (markClosed st) = rejectedOf z st"
  "inflightOf z (BeginShutdown st) = inflightOf z st" "inflightOf z (markClosed st) = inflightOf z st"
  "buffered (BeginShutdown st) = buffered st" "buffered (markClosed st) = buffered st"
  "vs_closed (BeginShutdown st) = vs_closed st" "vs_done (BeginShutdown st) = vs_done st"
  by (auto simp: BeginShutdown_def markClosed_def zone_views buffered_def split: zone.splits)

section \<open>Every step keeps the invariant\<close>

lemma admit_inv [inv_intros]:
  assumes "vals_inv s" "\<not> vs_closed (store s)" "push z e (store s) = Some st"
  shows "vals_inv (s\<lparr>store := st, admitted := (admitted s)(z := admitted s z @ [e])\<rparr>)"
  using assms(1) push_admits [OF assms(3,2)] assms(2)
  by (auto simp: vals_inv_def zone_inv_def inflight_def persistedLog_def droppedLog_def add.commute
      split: flusher.splits)

lemma reject_inv [inv_intros]:
  assumes "vals_inv s" "vs_closed (store s)" "push z e (store s) = Some st"
  shows "vals_inv (s\<lparr>store := st, rejected := (rejected s)(z := rejected s z @ [e])\<rparr>)"
  using assms(1) push_rejects [OF assms(3,2)] assms(2)
  by (auto simp: vals_inv_def zone_inv_def inflight_def persistedLog_def droppedLog_def add.commute
      split: flusher.splits)

lemma beginFlush_inv [inv_intros]:
  assumes "vals_inv s" "flusher s = Idle" "final \<longrightarrow> vs_done (store s)"
  shows "vals_inv (beginFlush final s)"
  using assms
  by (auto simp: vals_inv_def zone_inv_def beginFlush_def flushTake_def inflight_def persistedLog_def
      droppedLog_def zone_all zone_views concat_chunks buffered_def dest: chunks_bounds)

lemma chunk_inv [inv_intros]:
  assumes "vals_inv s" "flusher s = Draining final" "pending s z = c # cs"
  shows "vals_inv (s\<lparr>store := accountChunk z (of_nat (length c)) b (store s),
      pending := (pending s)(z := cs),
      settled := (settled s)(z := settled s z @ map (\<lambda>e. (e, b)) c)\<rparr>)"
  (is "vals_inv ?t")
proof -
  have "\<forall>z'. zone_inv s z'" using assms(1) by (simp add: vals_inv_def)
  then have "zone_inv ?t z'" for z'
    using assms(3)
    by (cases "z' = z") (auto simp: zone_inv_def inflight_def persistedLog_def droppedLog_def
        accountChunk_views filter_map comp_def)
  moreover have "\<forall>c' \<in> set (pending ?t z'). c' \<noteq> [] \<and> length c' \<le> valsMaxBatch" for z'
  proof -
    have "set (pending ?t z') \<subseteq> set (pending s z')" using assms(3) by auto
    then show ?thesis using assms(1) unfolding vals_inv_def by blast
  qed
  moreover have "vs_closed (store s) = vs_done (store s)" using assms(1) by (simp add: vals_inv_def)
  ultimately show ?thesis using assms(1,2) by (auto simp: vals_inv_def accountChunk_views)
qed

lemma vals_step_inv: "vals_inv s \<Longrightarrow> vals_step s t \<Longrightarrow> vals_inv t"
proof (elim vals_stepE)
  fix final
  assume "vals_inv s" "flusher s = Draining final" "pending s Records = []" "pending s Backlinks = []"
    and t: "t = s\<lparr>flusher := if final then Exited else Idle\<rparr>"
  then show "vals_inv t"
    by (auto simp: vals_inv_def zone_inv_def zone_all inflight_def persistedLog_def droppedLog_def)
next
  assume "vals_inv s" "flusher s = Idle" "vs_flushNow (store s)"
    and t: "t = beginFlush False (s\<lparr>store := store s\<lparr>vs_flushNow := False\<rparr>\<rparr>)"
  moreover from this have "vals_inv (s\<lparr>store := store s\<lparr>vs_flushNow := False\<rparr>\<rparr>)"
    by (simp add: vals_inv_def zone_inv_def inflight_def persistedLog_def droppedLog_def zone_views
        buffered_def split: zone.splits)
  ultimately show "vals_inv t" by (simp add: inv_intros)
next
  assume "vals_inv s" "t = s\<lparr>store := markClosed (BeginShutdown (store s))\<rparr>"
  moreover have "vs_closed (markClosed st)" "vs_closed st = vs_done st \<Longrightarrow> vs_done (markClosed st)" for st
    by (auto simp: markClosed_def)
  ultimately show "vals_inv t"
    by (auto simp: vals_inv_def zone_inv_def inflight_def persistedLog_def droppedLog_def
        split: flusher.splits)
next
  assume "vals_inv s" "t = s\<lparr>store := BeginShutdown (store s)\<rparr>"
  then show "vals_inv t"
    by (auto simp: vals_inv_def zone_inv_def inflight_def persistedLog_def droppedLog_def
        split: flusher.splits)
qed (simp_all add: inv_intros)

end
