(* ===== verification/ValsProps.thy ===== *)
theory ValsProps
  imports ValsSystem
begin

text \<open>
  What the vals backend promises: nothing admitted is lost track of or reordered within its zone,
  the buffers stay within their bound, a chunk is dropped for exactly two reasons, a clean close means
  that everything was persisted, and keys and cursor round-trip.
\<close>

section \<open>The sink interfaces\<close>

definition admittedItems :: "zone \<Rightarrow> vals_sys \<Rightarrow> kv multiset" where
  "admittedItems z s = mset (admitted s z)"
definition heldItems :: "zone \<Rightarrow> vals_sys \<Rightarrow> kv multiset" where
  "heldItems z s = mset (inflight s z @ bufferOf z (store s))"
definition settledItems :: "zone \<Rightarrow> vals_sys \<Rightarrow> kv multiset" where
  "settledItems z s = mset (map fst (settled s z))"

lemmas vals_items = admittedItems_def heldItems_def settledItems_def

lemma step_admitted: "vals_step s t \<Longrightarrow> \<exists>es. admitted t z = admitted s z @ es"
  by (elim vals_stepE) (auto simp: beginFlush_def Let_def split: prod.splits)

lemma step_settled: "vals_step s t \<Longrightarrow> \<exists>ps. settled t z = settled s z @ ps"
  by (elim vals_stepE) (auto simp: beginFlush_def Let_def split: prod.splits)

lemma step_exited: "vals_step s t \<Longrightarrow> flusher s = Exited \<Longrightarrow> flusher t = Exited"
  by (elim vals_stepE) auto

interpretation valsq: closing_sink vals_step vals_inv "admittedItems z" "heldItems z" "settledItems z"
    "\<lambda>s. flusher s = Exited" for z
proof unfold_locales
  fix s t assume "vals_inv s" "vals_step s t"
  then show "vals_inv t" by (rule vals_step_inv)
next
  fix s assume "vals_inv s"
  then have "zone_inv s z" by (simp add: vals_inv_def)
  then show "admittedItems z s = heldItems z s + settledItems z s"
    by (simp add: zone_inv_def vals_items)
next
  fix s t assume "vals_step s t"
  then show "admittedItems z s \<subseteq># admittedItems z t" "settledItems z s \<subseteq># settledItems z t"
    using step_admitted [of s t z] step_settled [of s t z] by (auto simp: vals_items)
next
  fix s assume "vals_inv s" "flusher s = Exited"
  then show "heldItems z s = {#}" by (simp add: vals_inv_def vals_items inflight_def buffered_zone)
next
  fix s t assume "flusher s = Exited" "vals_step s t"
  then show "flusher t = Exited" by (simp add: step_exited)
qed

interpretation valsb: bounded_sink vals_step vals_inv "admittedItems z" "heldItems z" "settledItems z"
    "\<lambda>s. buffered (store s)" valsBufferCap for z
  by unfold_locales (simp add: vals_inv_def)

lemma reachable_inv: "vals_step\<^sup>*\<^sup>* initialSys s \<Longrightarrow> vals_inv s"
  using valsq.run_inv initial_inv by blast

section \<open>The retry loop\<close>

definition expires :: "turn \<Rightarrow> bool" where
  "expires t = (case t_end t of TimerFired \<Rightarrow> False | Interrupted expired \<Rightarrow> t_shutdown t \<or> expired)"

definition hardFailures :: "turn list \<Rightarrow> nat" where
  "hardFailures ts = length (filter (\<lambda>t. t_answer t = Some ErrHard) ts)"

definition goesOn :: "turn \<Rightarrow> bool" where
  "goesOn t \<longleftrightarrow> t_answer t \<noteq> None \<and> \<not> expires t"

text \<open>The decision a turn takes after \<open>h\<close> hard failures.\<close>

definition decides :: "turn \<Rightarrow> nat \<Rightarrow> bool option" where
  "decides t h = (case t_answer t of
       None \<Rightarrow> Some True
     | Some e \<Rightarrow> if e = ErrHard \<and> 6 \<le> h \<or> expires t then Some False else None)"

lemma hardFailures_Cons:
  "hardFailures (t # ts) = (if t_answer t = Some ErrHard then 1 else 0) + hardFailures ts"
  by (simp add: hardFailures_def)

lemma next_retry_policy:
  assumes "hardAttempts r = int h" "h \<le> 6" "next_retry r e j = ((p, a), r')"
  shows "pol_retry p \<longleftrightarrow> \<not> (e = ErrHard \<and> h = 6)"
    and "hardAttempts r' = int h + (if e = ErrHard then 1 else 0)"
  using assms
  by (cases e; auto simp: next_retry_def valsBatchRetryPolicy_def valsHardRetryLimit_def Let_def
      split: if_splits)+

lemma flushLoopTurns_step:
  assumes "hardAttempts r = int h" "h \<le> 6"
  shows "decides t h = Some b \<Longrightarrow> flushLoopTurns (t # ts) r = ([CallPutBatch], Some b)"
    and "decides t h = None \<Longrightarrow>
      \<exists>r'. hardAttempts r' = int (h + (if t_answer t = Some ErrHard then 1 else 0))
        \<and> h + (if t_answer t = Some ErrHard then 1 else 0) \<le> 6
        \<and> snd (flushLoopTurns (t # ts) r) = snd (flushLoopTurns ts r')
        \<and> filter (\<lambda>c. c = CallPutBatch) (fst (flushLoopTurns (t # ts) r))
            = CallPutBatch # filter (\<lambda>c. c = CallPutBatch) (fst (flushLoopTurns ts r'))"
proof -
  obtain p a r' where n: "\<And>e. t_answer t = Some e \<Longrightarrow> next_retry r e (t_jitter t) = ((p, a), r')"
    by (cases "t_answer t") (auto, metis prod.collapse)
  note pol = next_retry_policy [OF assms n]
  { assume "decides t h = Some b"
    then show "flushLoopTurns (t # ts) r = ([CallPutBatch], Some b)"
      using pol n assms(2)
      by (auto simp: decides_def expires_def Let_def split: option.splits if_splits wait_end.splits) }
  { assume d: "decides t h = None"
    then obtain e where e: "t_answer t = Some e" by (auto simp: decides_def split: option.splits)
    show "\<exists>r'. hardAttempts r' = int (h + (if t_answer t = Some ErrHard then 1 else 0))
        \<and> h + (if t_answer t = Some ErrHard then 1 else 0) \<le> 6
        \<and> snd (flushLoopTurns (t # ts) r) = snd (flushLoopTurns ts r')
        \<and> filter (\<lambda>c. c = CallPutBatch) (fst (flushLoopTurns (t # ts) r))
            = CallPutBatch # filter (\<lambda>c. c = CallPutBatch) (fst (flushLoopTurns ts r'))"
      using pol [OF e] n [OF e] d e assms(2)
      by (intro exI [of _ r'])
         (auto simp: decides_def expires_def Let_def split: if_splits wait_end.splits prod.splits) }
qed

text \<open>The first turn that decides settles the chunk.\<close>

lemma flushLoopTurns_outcome:
  assumes "hardAttempts r = int h" "h \<le> 6"
  shows "snd (flushLoopTurns ts r) = Some b \<longleftrightarrow>
    (\<exists>n < length ts. (\<forall>i < n. decides (ts ! i) (h + hardFailures (take i ts)) = None)
       \<and> decides (ts ! n) (h + hardFailures (take n ts)) = Some b)"
  using assms
proof (induction ts arbitrary: r h)
  case (Cons t ts)
  show ?case
  proof (cases "decides t h")
    case (Some b')
    then show ?thesis
      using flushLoopTurns_step(1) [OF Cons.prems Some, of ts]
      by (auto simp: hardFailures_def less_Suc_eq_0_disj Ex_less_Suc2 dest: spec [of _ 0]
          intro: exI [of _ 0])
  next
    case None
    let ?h = "h + (if t_answer t = Some ErrHard then 1 else 0)"
    from flushLoopTurns_step(2) [OF Cons.prems None, of ts] obtain r' where
      r': "hardAttempts r' = int ?h" "?h \<le> 6"
        "snd (flushLoopTurns (t # ts) r) = snd (flushLoopTurns ts r')" by auto
    show ?thesis
      unfolding r'(3) Cons.IH [OF r'(1,2)]
      using None
      by (simp add: Ex_less_Suc2 All_less_Suc2 hardFailures_Cons add.assoc hardFailures_def [of "[]"]
          del: flushLoopTurns.simps)
  qed
qed simp

text \<open>
  The budget of the loop, \<open>n\<close> being the turns before the one that settles the chunk: none of them
  succeeded or saw the deadline, and the turns that were not refused as \<^verbatim>\<open>Busy\<close> use up the seven
  attempts.
\<close>

definition putCalls :: "client_call list \<Rightarrow> nat" where
  "putCalls calls = length (filter (\<lambda>c. c = CallPutBatch) calls)"

definition notBusy :: "turn list \<Rightarrow> nat" where
  "notBusy ts = length (filter (\<lambda>t. t_answer t \<noteq> Some ErrBusy) ts)"

lemma notBusy_Cons: "notBusy (t # ts) = (if t_answer t = Some ErrBusy then 0 else 1) + notBusy ts"
  by (simp add: notBusy_def)

lemma budget_Nil [simp]: "notBusy [] = 0" "hardFailures [] = 0"
  by (simp_all add: notBusy_def hardFailures_def)

lemma hardFailures_le_notBusy: "hardFailures ts \<le> notBusy ts"
  by (induction ts) (auto simp: notBusy_Cons hardFailures_Cons)

lemma decides_goesOn: "decides t h = None \<longleftrightarrow> goesOn t \<and> (t_answer t = Some ErrHard \<longrightarrow> h < 6)"
  by (auto simp: decides_def goesOn_def split: option.splits)

lemma flushLoopTurns_budget:
  assumes "hardAttempts r = int h" "h \<le> 6" "7 \<le> h + notBusy ts"
  shows "\<exists>n b. snd (flushLoopTurns ts r) = Some b
     \<and> putCalls (fst (flushLoopTurns ts r)) = Suc n \<and> n < length ts
     \<and> list_all goesOn (take n ts) \<and> h + notBusy (take n ts) \<le> 6
     \<and> decides (ts ! n) (h + hardFailures (take n ts)) = Some b"
  using assms
proof (induction ts arbitrary: r h)
  case (Cons t ts)
  show ?case
  proof (cases "decides t h")
    case (Some b)
    then show ?thesis using flushLoopTurns_step(1) [OF Cons.prems(1,2) Some, of ts] Cons.prems(2)
      by (intro exI [of _ 0] exI [of _ b]) (simp add: putCalls_def)
  next
    case None
    let ?h = "h + (if t_answer t = Some ErrHard then 1 else 0)"
    from flushLoopTurns_step(2) [OF Cons.prems(1,2) None, of ts] obtain r' where
      r': "hardAttempts r' = int ?h" "?h \<le> 6"
        "snd (flushLoopTurns (t # ts) r) = snd (flushLoopTurns ts r')"
        "filter (\<lambda>c. c = CallPutBatch) (fst (flushLoopTurns (t # ts) r))
            = CallPutBatch # filter (\<lambda>c. c = CallPutBatch) (fst (flushLoopTurns ts r'))" by auto
    from None have g: "goesOn t" by (simp add: decides_goesOn)
    then have nb: "h + notBusy (t # us) = ?h + notBusy us" for us
      by (cases "t_answer t"; cases "the (t_answer t)") (auto simp: goesOn_def notBusy_Cons)
    obtain n b where n: "snd (flushLoopTurns ts r') = Some b"
      "putCalls (fst (flushLoopTurns ts r')) = Suc n" "n < length ts"
      "list_all goesOn (take n ts)" "?h + notBusy (take n ts) \<le> 6"
      "decides (ts ! n) (?h + hardFailures (take n ts)) = Some b"
      using Cons.IH [OF r'(1,2)] Cons.prems(3) nb [of ts] by auto
    have "snd (flushLoopTurns (t # ts) r) = Some b" using r'(3) n(1) by simp
    moreover have "putCalls (fst (flushLoopTurns (t # ts) r)) = Suc (Suc n)"
      using n(2) unfolding putCalls_def r'(4) by simp
    ultimately show ?thesis
      using n(3-) g nb [of "take n ts"]
      by (intro exI [of _ "Suc n"] exI [of _ b])
         (simp add: hardFailures_Cons add.assoc del: flushLoopTurns.simps)
  qed
qed simp

section \<open>Counters\<close>

lemma map_of_nat_sums:
  "(of_nat a + of_nat b + of_nat c + of_nat d :: uint64) = of_nat (a + b + c + d)"
  by simp

lemma of_nat_zero_uint64: "n < 2 ^ 64 \<Longrightarrow> (of_nat n :: uint64) = 0 \<longleftrightarrow> n = 0"
  using uint64_of_nat_inject [of n 0] by simp

lemma settled_split:
  "length (settled s z) = length (persistedLog s z) + length (droppedLog s z)"
  by (simp add: persistedLog_def droppedLog_def sum_length_filter_compl)

lemma all_persisted:
  "zone_inv s z \<Longrightarrow> inflight s z = [] \<Longrightarrow> bufferOf z (store s) = [] \<Longrightarrow>
   droppedLog s z = [] \<longleftrightarrow> persistedLog s z = admitted s z"
proof -
  assume z: "zone_inv s z" "inflight s z = []" "bufferOf z (store s) = []"
  then have a: "admitted s z = map fst (settled s z)" by (simp add: zone_inv_def)
  show ?thesis
  proof
    assume "droppedLog s z = []"
    then have "filter snd (settled s z) = settled s z"
      by (auto simp: droppedLog_def filter_empty_conv intro: filter_True)
    then show "persistedLog s z = admitted s z" by (simp add: a persistedLog_def)
  next
    assume "persistedLog s z = admitted s z"
    then have "length (persistedLog s z) = length (settled s z)" by (simp add: a)
    then show "droppedLog s z = []" using settled_split [of s z] by simp
  qed
qed

lemma clean_close_persisted:
  assumes "vals_step\<^sup>*\<^sup>* initialSys s"
    and "expired \<or> flusher s = Exited"
    and "length (admitted s Records) + length (admitted s Backlinks)
       + length (rejected s Records) + length (rejected s Backlinks) < 2 ^ 64"
  shows "closeVerdict expired (Stats (store s)) = None \<longleftrightarrow>
     \<not> expired \<and> (\<forall>z. persistedLog s z = admitted s z \<and> rejected s z = [])"
proof (cases expired)
  case False
  with assms(2) have ex: "flusher s = Exited" by simp
  have inv: "vals_inv s" using reachable_inv [OF assms(1)] .
  with ex have empty: "bufferOf z (store s) = []" "inflight s z = []" for z
    by (auto simp: vals_inv_def inflight_def buffered_zone)
  have zi: "zone_inv s z" for z using inv by (simp add: vals_inv_def)
  let ?lost = "length (droppedLog s Records) + length (droppedLog s Backlinks)
             + length (rejected s Records) + length (rejected s Backlinks)"
  have "length (droppedLog s z) \<le> length (admitted s z)" for z
    using zi [of z] settled_split [of s z] by (simp add: zone_inv_def)
  from this [of Records] this [of Backlinks] assms(3) have lost: "?lost < 2 ^ 64" by linarith
  have st: "st_BufferedRecords (Stats (store s)) = 0" "st_BufferedBacklinks (Stats (store s)) = 0"
    "st_InflightRecords (Stats (store s)) = 0" "st_InflightBacklinks (Stats (store s)) = 0"
    "st_DroppedRecords (Stats (store s)) = of_nat (length (droppedLog s Records))"
    "st_DroppedBacklinks (Stats (store s)) = of_nat (length (droppedLog s Backlinks))"
    "st_RejectedRecords (Stats (store s)) = of_nat (length (rejected s Records))"
    "st_RejectedBacklinks (Stats (store s)) = of_nat (length (rejected s Backlinks))"
    using empty [of Records] empty [of Backlinks] zi [of Records] zi [of Backlinks]
    by (simp_all add: Stats_def zone_inv_def zone_views)
  have "closeVerdict expired (Stats (store s)) = None \<longleftrightarrow> (of_nat ?lost :: uint64) = 0"
    using False by (simp add: closeVerdict_def Let_def st)
  also have "\<dots> \<longleftrightarrow> (\<forall>z. droppedLog s z = [] \<and> rejected s z = [])"
    unfolding of_nat_zero_uint64 [OF lost] by (auto simp: zone_all)
  also have "\<dots> \<longleftrightarrow> (\<forall>z. persistedLog s z = admitted s z \<and> rejected s z = [])"
    using all_persisted [OF zi empty(2,1)] by simp
  finally show ?thesis using False by simp
qed (simp add: closeVerdict_def Let_def)

lemma uriToRecordKey_uri:
  assumes "CHR ''/'' \<notin> set did" "CHR ''/'' \<notin> set coll"
  shows "uriToRecordKey (''at://'' @ did @ ''/'' @ coll @ ''/'' @ rkey) = Some (recordKey coll did rkey)"
  using SplitN3_append [OF assms, of rkey] CutPrefix_append [of "''at://''"]
  by (simp add: uriToRecordKey_def Let_def)

section \<open>Properties\<close>

text \<open>C6. Nothing the vals store admits is lost track of, duplicated or reordered within its zone: at
  every moment of every interleaving of producers, flush loop, zone goroutines and shutdown, what the
  zone admitted is what it has settled, then what it is writing, then what it buffers, in this order.\<close>

theorem vals_fifo:
  assumes "vals_step\<^sup>*\<^sup>* initialSys s"
  shows "admitted s z = map fst (settled s z) @ concat (pending s z) @ bufferOf z (store s)"
  using reachable_inv [OF assms] by (simp add: vals_inv_def zone_inv_def inflight_def)

definition demoEntry :: kv where "demoEntry = \<lparr>Key = ''k'', Val = ''v''\<rparr>"

definition demoAdmitted :: vals_sys where
  "demoAdmitted = initialSys\<lparr>store := appendZone Records demoEntry NewValsStore,
     admitted := (\<lambda>_. [])(Records := [demoEntry])\<rparr>"

lemma demo_reachable: "vals_step\<^sup>*\<^sup>* initialSys demoAdmitted"
proof -
  have "vals_step initialSys (initialSys\<lparr>store := appendZone Records demoEntry NewValsStore,
      admitted := (admitted initialSys)(Records := admitted initialSys Records @ [demoEntry])\<rparr>)"
    by (rule Admit) (simp_all add: initialSys_def NewValsStore_def push_def buffered_def Let_def appendZone_def)
  then show ?thesis by (simp add: demoAdmitted_def initialSys_def)
qed

theorem vals_fifo_witness:
  "admitted demoAdmitted Records = [] @ [] @ [demoEntry]"
  using vals_fifo [OF demo_reachable, of Records]
  by (simp add: demoAdmitted_def initialSys_def bufferOf_def appendZone_def NewValsStore_def)

text \<open>C29. The back-pressure works: the two buffers together never hold more than 50000 entries.\<close>

theorem vals_buffer_bounded:
  assumes "vals_step\<^sup>*\<^sup>* initialSys s"
  shows "length (vs_records (store s)) + length (vs_links (store s)) \<le> valsBufferCap"
  using valsb.run_bound [OF assms initial_inv] by (simp add: buffered_def)

theorem vals_buffer_bounded_witness:
  "length (vs_records (store demoAdmitted)) + length (vs_links (store demoAdmitted)) \<le> valsBufferCap"
  by (rule vals_buffer_bounded [OF demo_reachable])

text \<open>C5. The verdict of \<^verbatim>\<open>CloseContext\<close> is right: it returns nil exactly when the deadline had not
  expired and both zones have persisted everything they admitted, in order, and rejected nothing. (The
  counters wrap at \<open>2 ^ 64\<close>, so fewer entries than that must have been offered.)\<close>

theorem vals_clean_close:
  assumes "vals_step\<^sup>*\<^sup>* initialSys s"
    and "expired \<or> flusher s = Exited"
    and "length (admitted s Records) + length (admitted s Backlinks)
       + length (rejected s Records) + length (rejected s Backlinks) < 2 ^ 64"
  shows "closeVerdict expired (Stats (store s)) = None \<longleftrightarrow>
     \<not> expired \<and> (\<forall>z. persistedLog s z = admitted s z \<and> rejected s z = [])"
  using assms by (rule clean_close_persisted)

theorem vals_clean_close_witness:
  "closeVerdict True (Stats (store demoAdmitted)) \<noteq> None"
  using vals_clean_close [OF demo_reachable, of True]
  by (simp add: demoAdmitted_def initialSys_def)

text \<open>The counters of a zone add up at every moment, as 64-bit words: admitted is persisted plus
  dropped plus buffered plus in flight.\<close>

theorem vals_counters_add_up:
  assumes "vals_step\<^sup>*\<^sup>* initialSys s"
  shows "admittedOf z (store s) = persistedOf z (store s) + droppedOf z (store s)
     + of_nat (length (bufferOf z (store s))) + inflightOf z (store s)"
proof -
  have z: "zone_inv s z" using reachable_inv [OF assms] by (simp add: vals_inv_def)
  then have "length (admitted s z) = length (persistedLog s z) + length (droppedLog s z)
      + length (bufferOf z (store s)) + length (inflight s z)"
    using settled_split [of s z] by (simp add: zone_inv_def)
  then have "(of_nat (length (admitted s z)) :: uint64) = of_nat (length (persistedLog s z))
      + of_nat (length (droppedLog s z)) + of_nat (length (bufferOf z (store s)))
      + of_nat (length (inflight s z))" by simp
  then show ?thesis using z by (simp add: zone_inv_def)
qed

theorem vals_counters_add_up_witness:
  "admittedOf Records (store demoAdmitted) = 0 + 0 + 1 + 0"
  using vals_counters_add_up [OF demo_reachable, of Records]
  by (simp add: demoAdmitted_def initialSys_def zone_views appendZone_def NewValsStore_def)

text \<open>C8. A chunk is dropped for exactly two reasons. It is given up at the first turn at which a hard
  failure has had six hard failures before it, or at which the shutdown deadline expired after a
  failure; it is persisted if a \<^verbatim>\<open>PutBatch\<close> succeeds before that. \<^verbatim>\<open>Busy\<close> answers never count.\<close>

theorem flushChunk_outcome:
  assumes "kvs \<noteq> []"
  shows "snd (flushChunk ts kvs) = Some b \<longleftrightarrow>
    (\<exists>n < length ts. (\<forall>i < n. decides (ts ! i) (hardFailures (take i ts)) = None)
       \<and> decides (ts ! n) (hardFailures (take n ts)) = Some b)"
  using flushLoopTurns_outcome [of fresh_retry 0 ts b] assms
  by (simp add: flushChunk_def fresh_retry_def)

theorem flushChunk_outcome_witness:
  "snd (flushChunk
     [\<lparr>t_answer = Some ErrBusy, t_jitter = 0, t_shutdown = False, t_end = TimerFired\<rparr>,
      \<lparr>t_answer = None, t_jitter = 0, t_shutdown = False, t_end = TimerFired\<rparr>] [demoEntry]) = Some True"
  unfolding flushChunk_outcome [of "[demoEntry]", OF list.distinct(2)]
  by (rule exI [of _ 1]) (simp add: decides_def expires_def)

text \<open>C28. Seven answers that are not \<^verbatim>\<open>Busy\<close> always settle a chunk, however many refusals as
  \<^verbatim>\<open>Busy\<close> come between them, and never earlier than they should. The loop returns from its turn
  \<open>n\<close>, having called \<^verbatim>\<open>PutBatch\<close> \<open>n + 1\<close> times; no turn before it succeeded or saw the deadline. If the chunk
  was persisted, that turn succeeded, after at most six hard failures. If it was dropped, that turn
  failed, and the deadline had expired or it was the seventh hard failure.\<close>

theorem flushChunk_budget:
  assumes "kvs \<noteq> []" "7 \<le> notBusy ts"
  shows "\<exists>n persisted. snd (flushChunk ts kvs) = Some persisted
     \<and> putCalls (fst (flushChunk ts kvs)) = Suc n \<and> n < length ts
     \<and> (\<forall>i < n. t_answer (ts ! i) \<noteq> None \<and> \<not> expires (ts ! i))
     \<and> (if persisted then t_answer (ts ! n) = None \<and> hardFailures (take (Suc n) ts) \<le> 6
        else t_answer (ts ! n) \<noteq> None \<and> (expires (ts ! n) \<or> hardFailures (take (Suc n) ts) = 7))"
proof -
  have f: "flushChunk ts kvs = flushLoopTurns ts fresh_retry" using assms(1) by (simp add: flushChunk_def)
  obtain n b where n: "snd (flushChunk ts kvs) = Some b" "putCalls (fst (flushChunk ts kvs)) = Suc n"
    "n < length ts" "list_all goesOn (take n ts)" "notBusy (take n ts) \<le> 6"
    "decides (ts ! n) (hardFailures (take n ts)) = Some b"
    using flushLoopTurns_budget [of fresh_retry 0 ts] assms(2) unfolding f
    by (auto simp: fresh_retry_def)
  have "goesOn (ts ! i)" if "i < n" for i
    using n(3,4) that by (auto simp: list_all_length)
  moreover have le: "hardFailures (take n ts) \<le> 6"
    using hardFailures_le_notBusy [of "take n ts"] n(5) by simp
  moreover have "hardFailures (take (Suc n) ts)
      = hardFailures (take n ts) + (if t_answer (ts ! n) = Some ErrHard then 1 else 0)"
    using n(3) by (simp add: take_Suc_conv_app_nth hardFailures_def)
  ultimately show ?thesis
    using n by (intro exI [of _ n] exI [of _ b])
      (auto simp: goesOn_def decides_def split: option.splits if_splits)
qed

definition demoTurn :: "put_error option \<Rightarrow> turn" where
  "demoTurn answer = \<lparr>t_answer = answer, t_jitter = 0, t_shutdown = False, t_end = TimerFired\<rparr>"

theorem flushChunk_budget_witness:
  "\<exists>n persisted. snd (flushChunk (demoTurn (Some ErrBusy) # replicate 7 (demoTurn (Some ErrHard))) [demoEntry])
      = Some persisted \<and> \<not> persisted \<and> n < (8 :: nat)"
proof -
  let ?ts = "demoTurn (Some ErrBusy) # replicate 7 (demoTurn (Some ErrHard))"
  have "7 \<le> notBusy ?ts" by (simp add: notBusy_def demoTurn_def)
  from flushChunk_budget [OF list.distinct(2) this, of demoEntry "[]"] obtain n b where
    "snd (flushChunk ?ts [demoEntry]) = Some b" "n < 8" "b \<longrightarrow> t_answer (?ts ! n) = None" by auto
  moreover have "t_answer (?ts ! n) \<noteq> None" if "n < 8" for n
    using that by (cases n) (simp_all add: demoTurn_def)
  ultimately show ?thesis by blast
qed

text \<open>A delete addresses the very key the record was written under: for the URI of a record whose
  DID and collection contain no slash, \<^verbatim>\<open>QueueRecordDelete\<close> deletes \<^verbatim>\<open>recordKey\<close> in the
  records zone, whatever the record key contains; any other URI deletes nothing or a key of this form.\<close>

theorem delete_addresses_record:
  assumes "CHR ''/'' \<notin> set did" "CHR ''/'' \<notin> set coll"
  shows "QueueRecordDelete cl (''at://'' @ did @ ''/'' @ coll @ ''/'' @ rkey) c
       = snd (vc_Delete cl ''records'' (recordKey coll did rkey) c)"
  using uriToRecordKey_uri [OF assms] by (simp add: QueueRecordDelete_def)

definition mapClient :: "(string \<times> string \<rightharpoonup> string) vals_client" where
  "mapClient = \<lparr>vc_Put = (\<lambda>z k v c. (True, c((z, k) \<mapsto> v))), vc_Delete = (\<lambda>z k c. (True, c((z, k) := None))),
      vc_Get = (\<lambda>z k c. (Some (c (z, k)), c))\<rparr>"

theorem delete_addresses_record_witness:
  "QueueRecordDelete mapClient (''at://'' @ ''did:plc:a'' @ ''/'' @ ''app.bsky.feed.like'' @ ''/'' @ ''3k/x'')
     [(''records'', recordKey ''app.bsky.feed.like'' ''did:plc:a'' ''3k/x'') \<mapsto> ''{}''] = Map.empty"
  using delete_addresses_record [of "''did:plc:a''" "''app.bsky.feed.like''" mapClient "''3k/x''"]
  by (simp add: mapClient_def)

text \<open>The prefix scan is exact: a backlink's key starts with \<open>x\<close> and a NUL byte if and only if
  the backlink refers to \<open>x\<close>, for references without NUL bytes.\<close>

theorem backlinkKey_prefix:
  assumes "CHR 0x00 \<notin> set x" "CHR 0x00 \<notin> set (blr_Ref bl)"
  shows "HasPrefix (backlinkKey bl) (x @ [CHR 0x00]) \<longleftrightarrow> blr_Ref bl = x"
proof
  assume "HasPrefix (backlinkKey bl) (x @ [CHR 0x00])"
  then obtain t where "blr_Ref bl @ CHR 0x00 # (blr_SourceURI bl @ [CHR 0x00] @ blr_Path bl) = x @ CHR 0x00 # t"
    by (auto simp: HasPrefix_iff backlinkKey_def)
  then have "Cut (x @ CHR 0x00 # t) CHR 0x00 =
      Some (blr_Ref bl, blr_SourceURI bl @ [CHR 0x00] @ blr_Path bl)"
    using Cut_append [OF assms(2)] by metis
  then show "blr_Ref bl = x" using Cut_append [OF assms(1), of t] by simp
next
  assume "blr_Ref bl = x"
  then show "HasPrefix (backlinkKey bl) (x @ [CHR 0x00])"
    by (simp add: HasPrefix_iff backlinkKey_def)
qed

definition demoLink :: backlink_record where
  "demoLink = \<lparr>blr_Ref = ''at://a'', blr_RefType = ''uri'', blr_Collection = ''c'', blr_Path = ''p'',
     blr_SourceURI = ''s'', blr_SourceDID = ''d'', blr_CreatedAt = \<lparr>tsec = 0, tnsec = 0, toff = 0\<rparr>\<rparr>"

theorem backlinkKey_prefix_witness:
  "HasPrefix (backlinkKey demoLink) (''at://a'' @ [CHR 0x00]) \<longleftrightarrow> blr_Ref demoLink = ''at://a''"
  by (rule backlinkKey_prefix) (simp_all add: demoLink_def)

text \<open>C39. The cursor survives a restart: if a saved cursor was acknowledged, and a get answers what an
  acknowledged put stored, then \<^verbatim>\<open>LoadCursor\<close> returns that cursor.\<close>

theorem cursor_roundtrip:
  assumes get_after_put: "\<And>z k v c. fst (vc_Put cl z k v c) \<Longrightarrow>
      fst (vc_Get cl z k (snd (vc_Put cl z k v c))) = Some (Some v)"
    and "- (2 ^ 63) \<le> cursor" "cursor < 2 ^ 63"
    and saved: "SaveCursor cl expired cursor c = (None, c')"
  shows "fst (LoadCursor cl c') = Inr cursor"
proof -
  have "fst (vc_Put cl '''' valsCursorKey (FormatInt cursor) c)"
    and "c' = snd (vc_Put cl '''' valsCursorKey (FormatInt cursor) c)"
    using saved by (auto simp: SaveCursor_def split: prod.splits if_splits)
  with get_after_put have "fst (vc_Get cl '''' valsCursorKey c') = Some (Some (FormatInt cursor))" by blast
  then show ?thesis
    using ParseInt_FormatInt [OF assms(2,3)] by (cases "vc_Get cl '''' valsCursorKey c'") (simp add: LoadCursor_def)
qed

theorem cursor_roundtrip_witness:
  "fst (LoadCursor mapClient (snd (SaveCursor mapClient False 12345 (\<lambda>_. None)))) = Inr 12345"
  by (rule cursor_roundtrip [of mapClient 12345 False "\<lambda>_. None"])
     (simp_all add: mapClient_def SaveCursor_def)

text \<open>C40. A record whose creation time carries a zone offset of 24 hours or more (which
  \<^verbatim>\<open>time.Parse\<close> accepts) does not marshal, and the vals store skips it: nothing is buffered and no
  counter moves, neither the dropped nor the rejected one.\<close>

theorem unmarshalable_record_vanishes:
  assumes "24 * 3600 \<le> \<bar>toff (rec_CreatedAt r)\<bar>"
  shows "WriteRecord r s = Some s"
  using marshalTime_zone [OF assms] by (simp add: WriteRecord_def marshalRecord_def)

definition zonedRecord :: grecord where
  "zonedRecord = \<lparr>rec_URI = ''at://d/c/r'', rec_DID = ''d'', rec_Collection = ''c'', rec_Rkey = ''r'',
     rec_Record = '''', rec_CreatedAt = the (parseTime False ''2024-01-01T00:00:00+24:00''),
     rec_IndexedAt = \<lparr>tsec = 0, tnsec = 0, toff = 0\<rparr>, rec_Seq = 0\<rparr>"

theorem unmarshalable_record_vanishes_witness: "WriteRecord zonedRecord NewValsStore = Some NewValsStore"
proof (rule unmarshalable_record_vanishes)
  have "map_option toff (parseTime False ''2024-01-01T00:00:00+24:00'') = Some 86400" by code_simp
  then show "24 * 3600 \<le> \<bar>toff (rec_CreatedAt zonedRecord)\<bar>"
    by (auto simp: zonedRecord_def)
qed

section \<open>Draining\<close>

lemma drain_pending:
  assumes "flusher s = Draining final" "vs_done (store s)"
  shows "\<exists>t. vals_step\<^sup>*\<^sup>* s t \<and> flusher t = Draining final \<and> vs_done (store t)
    \<and> (\<forall>z. pending t z = [])"
  using assms
proof (induction "length (pending s Records) + length (pending s Backlinks)" arbitrary: s)
  case 0
  then show ?case by (intro exI [of _ s]) (simp add: zone_all)
next
  case (Suc n)
  then obtain z where "pending s z \<noteq> []"
    by (metis add_is_0 list.size(3) nat.distinct(1))
  then obtain c cs where z: "pending s z = c # cs" by (cases "pending s z") auto
  let ?turn = "\<lparr>t_answer = None, t_jitter = 0, t_shutdown = True, t_end = TimerFired\<rparr>"
  have ok: "snd (flushChunk [?turn] c) = Some True" by (simp add: flushChunk_def)
  let ?s = "s\<lparr>store := accountChunk z (of_nat (length c)) True (store s), pending := (pending s)(z := cs),
      settled := (settled s)(z := settled s z @ map (\<lambda>e. (e, True)) c)\<rparr>"
  have step: "vals_step s ?s" by (rule Chunk [OF Suc.prems(1) z ok])
  have "n = length (pending ?s Records) + length (pending ?s Backlinks)"
    using Suc.hyps(2) z by (cases z) auto
  moreover have "flusher ?s = Draining final" "vs_done (store ?s)"
    using Suc.prems by (simp_all add: accountChunk_views)
  ultimately obtain t where "vals_step\<^sup>*\<^sup>* ?s t" "flusher t = Draining final" "vs_done (store t)"
    "\<forall>z. pending t z = []" using Suc.hyps(1) by blast
  then show ?case using step by (meson converse_rtranclp_into_rtranclp)
qed

lemma drain_flush:
  assumes "flusher s = Draining final" "vs_done (store s)"
  shows "\<exists>t. vals_step\<^sup>*\<^sup>* s t \<and> flusher t = (if final then Exited else Idle) \<and> vs_done (store t)"
proof -
  obtain t where t: "vals_step\<^sup>*\<^sup>* s t" "flusher t = Draining final" "vs_done (store t)" "\<forall>z. pending t z = []"
    using drain_pending [OF assms] by blast
  have "vals_step t (t\<lparr>flusher := (if final then Exited else Idle)\<rparr>)"
    by (rule Flushed) (use t in simp_all)
  then show ?thesis using t by (intro exI [of _ "t\<lparr>flusher := (if final then Exited else Idle)\<rparr>"]) auto
qed

lemma drain_exits:
  assumes "vs_done (store s)"
  shows "\<exists>t. vals_step\<^sup>*\<^sup>* s t \<and> flusher t = Exited"
proof -
  have idle: "\<exists>t. vals_step\<^sup>*\<^sup>* s t \<and> flusher t = Exited" if "flusher s = Idle" "vs_done (store s)" for s
  proof -
    have "vals_step s (beginFlush True s)" using that by (rule Done)
    moreover have "flusher (beginFlush True s) = Draining True" "vs_done (store (beginFlush True s))"
      using that by (simp_all add: beginFlush_def flushTake_def)
    ultimately show ?thesis using drain_flush [of "beginFlush True s" True]
      by (auto intro: converse_rtranclp_into_rtranclp)
  qed
  show ?thesis
  proof (cases "flusher s")
    case (Draining final)
    then obtain t where "vals_step\<^sup>*\<^sup>* s t" "flusher t = (if final then Exited else Idle)" "vs_done (store t)"
      using drain_flush assms by blast
    then show ?thesis using idle [of t] by (cases final) (auto intro: rtranclp_trans)
  qed (use idle assms in auto)
qed

text \<open>C18. The store can always be closed: from every reachable state, whatever is buffered or in flight,
  there is a run in which the close is requested and the flush loop ends; in every such end all that was
  admitted is settled.\<close>

theorem vals_can_close:
  assumes "vals_step\<^sup>*\<^sup>* initialSys s"
  shows "\<exists>t. vals_step\<^sup>*\<^sup>* s t \<and> flusher t = Exited \<and> (\<forall>z. admitted t z = map fst (settled t z))"
proof -
  let ?c = "s\<lparr>store := markClosed (BeginShutdown (store s))\<rparr>"
  have step: "vals_step s ?c" by (rule vals_step.Close)
  then have inv: "vals_inv ?c" using vals_step_inv reachable_inv [OF assms] by blast
  have "vs_closed (store ?c)" by (simp add: markClosed_def)
  then have "vs_done (store ?c)" using inv by (simp add: vals_inv_def)
  then obtain t where t: "vals_step\<^sup>*\<^sup>* ?c t" "flusher t = Exited" using drain_exits by blast
  then have run: "vals_step\<^sup>*\<^sup>* s t" using step by (meson converse_rtranclp_into_rtranclp)
  then have "vals_inv t" using reachable_inv assms rtranclp_trans by metis
  then have "admitted t z = map fst (settled t z)" for z
    using t(2) by (simp add: vals_inv_def zone_inv_def inflight_def buffered_zone)
  then show ?thesis using run t(2) by blast
qed

theorem vals_can_close_witness:
  "\<exists>t. vals_step\<^sup>*\<^sup>* demoAdmitted t \<and> flusher t = Exited"
  using vals_can_close [OF demo_reachable] by blast

end
