(* ===== verification/Partitions.thy ===== *)
theory Partitions
  imports GoTime Sinks
begin

text \<open>
  What the two ClickHouse writers (\<^verbatim>\<open>ingest/writer.go\<close>, \<^verbatim>\<open>ingest/backlinks.go\<close>) have in
  common: buffers per partition, batches taken out of them under the lock, dispatched through a
  semaphore and inserted by goroutines. \<open>writer_step\<close> interleaves producers, flush loop, inserts and
  \<^verbatim>\<open>Close\<close> for any operations; the locale \<open>partition_writer\<close> states what the operations must
  satisfy and proves once what follows. Each writer interprets it on its own operations.
\<close>

section \<open>Buffers\<close>

record 'r partition_buffer =
  pb_records :: "'r list"
  pb_lastWrite :: gotime

type_synonym 'r partitions = "int \<rightharpoonup> 'r partition_buffer"

definition bufAt :: "'r partitions \<Rightarrow> int \<Rightarrow> 'r list" where
  "bufAt p pk = (case p pk of None \<Rightarrow> [] | Some buf \<Rightarrow> pb_records buf)"

definition bufferedIn :: "'r partitions \<Rightarrow> 'r multiset" where
  "bufferedIn p = (\<Sum>pk \<in> dom p. mset (bufAt p pk))"

definition keyed :: "('r \<Rightarrow> int) \<Rightarrow> int \<Rightarrow> 'r list \<Rightarrow> 'r list" where
  "keyed key pk rs = filter (\<lambda>r. key r = pk) rs"

lemma keyed_simps [simp]:
  "keyed key pk [] = []"
  "keyed key pk (xs @ ys) = keyed key pk xs @ keyed key pk ys"
  by (simp_all add: keyed_def)

lemma keyed_all: "\<forall>r \<in> set rs. key r = pk \<Longrightarrow> keyed key pk' rs = (if pk' = pk then rs else [])"
  by (induction rs) (auto simp: keyed_def)

lemma bufAt_upd [simp]:
  "bufAt (p(pk \<mapsto> b)) pk' = (if pk' = pk then pb_records b else bufAt p pk')"
  by (simp add: bufAt_def)

lemma count_keyed: "count (mset (keyed key (key x) rs)) x = count (mset rs) x"
  by (induction rs) (auto simp: keyed_def)

text \<open>Buffers that hold only their own partition's items are determined by what each partition holds.\<close>

lemma count_bufferedIn:
  assumes "finite (dom p)" "\<And>pk r. r \<in> set (bufAt p pk) \<Longrightarrow> key r = pk"
  shows "count (bufferedIn p) x = count (mset (bufAt p (key x))) x"
proof -
  have zero: "count (mset (bufAt p pk)) x = 0" if "pk \<noteq> key x" for pk
    using assms(2) [of x pk] that by (auto simp: count_eq_zero_iff)
  have "count (bufferedIn p) x = (\<Sum>pk \<in> dom p. count (mset (bufAt p pk)) x)"
    by (simp add: bufferedIn_def count_sum)
  also have "\<dots> = (\<Sum>pk \<in> dom p. if pk = key x then count (mset (bufAt p (key x))) x else 0)"
    by (rule sum.cong) (auto simp: zero)
  also have "\<dots> = count (mset (bufAt p (key x))) x"
    using assms(1) by (auto simp: bufAt_def domIff split: option.splits)
  finally show ?thesis .
qed

lemma keyed_accounts:
  assumes "finite (dom p)" "\<And>pk r. r \<in> set (bufAt p pk) \<Longrightarrow> key r = pk"
    and "\<And>pk. keyed key pk adm = keyed key pk out @ bufAt p pk"
  shows "mset adm = mset out + bufferedIn p"
proof (rule multiset_eqI)
  fix x
  have "count (mset adm) x = count (mset (keyed key (key x) adm)) x" by (simp add: count_keyed)
  also have "\<dots> = count (mset out) x + count (mset (bufAt p (key x))) x"
    by (simp add: assms(3) count_keyed)
  finally show "count (mset adm) x = count (mset out + bufferedIn p) x"
    by (simp add: count_bufferedIn [OF assms(1,2)])
qed

section \<open>Operations and steps\<close>

text \<open>
  The operations of a writer. An input \<^typ>\<open>'x\<close> of \<open>op_write\<close> carries the items and what else the call
  reads (the clock, the iteration order of a Go map: \<open>op_valid\<close> says it is one); the flushes take the iteration order of
  \<^verbatim>\<open>w.partitions\<close>. Every operation returns the batches it took out. \<open>op_insert\<close> is the outcome of
  \<^verbatim>\<open>insertRecords\<close> for the answers of the database: whether the batch was written, or
  \<^const>\<open>None\<close> if the answers do not decide it.
\<close>

record ('x, 'r, 'a) writer_ops =
  op_items :: "'x \<Rightarrow> 'r list"
  op_valid :: "'x \<Rightarrow> bool"
  op_write :: "'x \<Rightarrow> 'r partitions \<Rightarrow> 'r partitions \<times> 'r list list"
  op_stale :: "int list \<Rightarrow> gotime \<Rightarrow> 'r partitions \<Rightarrow> 'r partitions \<times> 'r list list"
  op_all :: "int list \<Rightarrow> 'r partitions \<Rightarrow> 'r partitions \<times> 'r list list"
  op_insert :: "'a \<Rightarrow> bool option"
  op_sem :: nat

datatype loop_phase = Ticking | Final | Stopped

text \<open>
  \<open>ws_calling\<close> and \<open>ws_flushing\<close> are the batches that producers and the flush loop have taken and not
  yet dispatched; \<open>ws_running\<close> those being inserted. \<open>ws_admitted\<close>, \<open>ws_taken\<close> (in the order of taking)
  and \<open>ws_settled\<close> (with whether the batch was written) are the history.
\<close>

record 'r writer_sys =
  ws_parts :: "'r partitions"
  ws_calling :: "'r list list"
  ws_flushing :: "'r list list"
  ws_running :: "'r list list"
  ws_loop :: loop_phase
  ws_done :: bool
  ws_admitted :: "'r list"
  ws_taken :: "'r list list"
  ws_settled :: "('r list \<times> bool) list"

definition initialWriter :: "'r writer_sys" where
  "initialWriter = \<lparr>ws_parts = (\<lambda>_. None), ws_calling = [], ws_flushing = [], ws_running = [],
     ws_loop = Ticking, ws_done = False, ws_admitted = [], ws_taken = [], ws_settled = []\<rparr>"

text \<open>
  \<open>WClose\<close> is \<^verbatim>\<open>close(w.done)\<close>. The ingester closes a sink only after its producers have returned
  from it (theory Ingester), so it happens when \<open>ws_calling\<close> is empty, and nothing is written after it.
\<close>

inductive writer_step :: "('x, 'r, 'a) writer_ops \<Rightarrow> 'r writer_sys \<Rightarrow> 'r writer_sys \<Rightarrow> bool"
  for ops where
  WWrite: "\<not> ws_done s \<Longrightarrow> op_valid ops x \<Longrightarrow> op_write ops x (ws_parts s) = (p, out) \<Longrightarrow>
    writer_step ops s (s\<lparr>ws_parts := p, ws_calling := ws_calling s @ out,
      ws_admitted := ws_admitted s @ op_items ops x, ws_taken := ws_taken s @ out\<rparr>)"
| WDispatch: "ws_calling s = xs @ b # ys \<Longrightarrow> length (ws_running s) < op_sem ops \<Longrightarrow>
    writer_step ops s (s\<lparr>ws_calling := xs @ ys, ws_running := ws_running s @ [b]\<rparr>)"
| WStale: "ws_loop s = Ticking \<Longrightarrow> ws_flushing s = [] \<Longrightarrow>
    distinct order \<Longrightarrow> set order = dom (ws_parts s) \<Longrightarrow> op_stale ops order now (ws_parts s) = (p, out) \<Longrightarrow>
    writer_step ops s (s\<lparr>ws_parts := p, ws_flushing := out, ws_taken := ws_taken s @ out\<rparr>)"
| WFlush: "ws_flushing s = b # bs \<Longrightarrow> length (ws_running s) < op_sem ops \<Longrightarrow>
    writer_step ops s (s\<lparr>ws_flushing := bs, ws_running := ws_running s @ [b]\<rparr>)"
| WClose: "\<not> ws_done s \<Longrightarrow> ws_calling s = [] \<Longrightarrow> writer_step ops s (s\<lparr>ws_done := True\<rparr>)"
| WFinal: "ws_loop s = Ticking \<Longrightarrow> ws_flushing s = [] \<Longrightarrow> ws_done s \<Longrightarrow>
    distinct order \<Longrightarrow> set order = dom (ws_parts s) \<Longrightarrow> op_all ops order (ws_parts s) = (p, out) \<Longrightarrow>
    writer_step ops s (s\<lparr>ws_parts := p, ws_flushing := out, ws_taken := ws_taken s @ out,
      ws_loop := Final\<rparr>)"
| WStop: "ws_loop s = Final \<Longrightarrow> ws_flushing s = [] \<Longrightarrow>
    writer_step ops s (s\<lparr>ws_loop := Stopped\<rparr>)"
| WInserted: "ws_running s = xs @ b # ys \<Longrightarrow> op_insert ops answers = Some ok \<Longrightarrow>
    writer_step ops s (s\<lparr>ws_running := xs @ ys, ws_settled := ws_settled s @ [(b, ok)]\<rparr>)"

inductive_cases writer_stepE: "writer_step ops s t"

text \<open>\<^verbatim>\<open>w.wg.Wait()\<close> has returned: the flush loop has ended and no insert is running.\<close>

definition writerClosed :: "'r writer_sys \<Rightarrow> bool" where
  "writerClosed s \<longleftrightarrow> ws_loop s = Stopped \<and> ws_running s = []"

text \<open>
  \<^verbatim>\<open>Close\<close>: it waits while the writer has not closed (the outer \<^const>\<open>None\<close>), and then
  returns no error, whatever became of the batches.
\<close>

definition writer_Close :: "'r writer_sys \<Rightarrow> string option option" where
  "writer_Close s = (if writerClosed s then Some None else None)"

definition writerAdmitted :: "'r writer_sys \<Rightarrow> 'r multiset" where
  "writerAdmitted s = mset (ws_admitted s)"
definition writerHeld :: "'r writer_sys \<Rightarrow> 'r multiset" where
  "writerHeld s = bufferedIn (ws_parts s)
     + mset (concat (ws_calling s @ ws_flushing s @ ws_running s))"
definition writerSettled :: "'r writer_sys \<Rightarrow> 'r multiset" where
  "writerSettled s = mset (concat (map fst (ws_settled s)))"

lemmas writer_views = writerAdmitted_def writerHeld_def writerSettled_def

section \<open>Invariant\<close>

text \<open>A batch is not empty, belongs to one partition and is no longer than the batch size.\<close>

definition goodBatch :: "('r \<Rightarrow> int) \<Rightarrow> nat \<Rightarrow> 'r list \<Rightarrow> bool" where
  "goodBatch key bsize b \<longleftrightarrow> b \<noteq> [] \<and> length b \<le> bsize \<and> (\<forall>r \<in> set b. key r = key (hd b))"

definition goodParts :: "('r \<Rightarrow> int) \<Rightarrow> nat \<Rightarrow> 'r partitions \<Rightarrow> bool" where
  "goodParts key bsize p \<longleftrightarrow>
     finite (dom p) \<and> (\<forall>pk. length (bufAt p pk) < bsize \<and> (\<forall>r \<in> set (bufAt p pk). key r = pk))"

text \<open>The items that enter with \<open>new\<close> leave in \<open>out\<close> or stay, in order within each partition.\<close>

definition movesTo :: "('r \<Rightarrow> int) \<Rightarrow> nat \<Rightarrow> 'r list \<Rightarrow> 'r partitions \<Rightarrow> 'r partitions \<Rightarrow> 'r list list \<Rightarrow> bool" where
  "movesTo key bsize new p p' out \<longleftrightarrow>
     goodParts key bsize p' \<and> (\<forall>b \<in> set out. goodBatch key bsize b)
   \<and> (\<forall>pk. bufAt p pk @ keyed key pk new = keyed key pk (concat out) @ bufAt p' pk)"

definition writer_inv :: "('r \<Rightarrow> int) \<Rightarrow> nat \<Rightarrow> nat \<Rightarrow> 'r writer_sys \<Rightarrow> bool" where
  "writer_inv key bsize sem s \<longleftrightarrow>
     goodParts key bsize (ws_parts s)
   \<and> (\<forall>b \<in> set (ws_taken s). goodBatch key bsize b)
   \<and> (\<forall>pk. keyed key pk (ws_admitted s) = keyed key pk (concat (ws_taken s)) @ bufAt (ws_parts s) pk)
   \<and> mset (ws_taken s) = mset (ws_calling s @ ws_flushing s @ ws_running s @ map fst (ws_settled s))
   \<and> length (ws_running s) \<le> sem
   \<and> (ws_done s \<longrightarrow> ws_calling s = [])
   \<and> (ws_loop s \<noteq> Ticking \<longrightarrow> ws_done s \<and> (\<forall>pk. bufAt (ws_parts s) pk = []))
   \<and> (ws_loop s = Stopped \<longrightarrow> ws_flushing s = [])"

lemma goodBatchI:
  "b \<noteq> [] \<Longrightarrow> length b \<le> bsize \<Longrightarrow> \<forall>r \<in> set b. key r = k \<Longrightarrow> goodBatch key bsize b"
  using hd_in_set [of b] by (simp add: goodBatch_def)

lemma mset_concat_eq: "mset xss = mset yss \<Longrightarrow> mset (concat xss) = mset (concat yss)"
  by (metis mset_concat mset_map sum_mset_sum_list)

lemma writer_accounts:
  assumes "writer_inv key bsize sem s"
  shows "writerAdmitted s = writerHeld s + writerSettled s"
proof -
  have "mset (ws_admitted s) = mset (concat (ws_taken s)) + bufferedIn (ws_parts s)"
    by (rule keyed_accounts [of _ key]) (use assms in \<open>auto simp: writer_inv_def goodParts_def\<close>)
  moreover have "mset (concat (ws_taken s)) =
      mset (concat (ws_calling s @ ws_flushing s @ ws_running s @ map fst (ws_settled s)))"
    using assms by (intro mset_concat_eq) (simp add: writer_inv_def)
  ultimately show ?thesis by (simp add: writer_views)
qed

lemma writer_closed_empty:
  assumes "writer_inv key bsize sem s" "writerClosed s"
  shows "writerHeld s = {#}"
  using assms by (auto simp: writer_inv_def writerClosed_def writerHeld_def bufferedIn_def)

lemma writer_initial: "0 < bsize \<Longrightarrow> writer_inv key bsize sem initialWriter"
  by (simp add: writer_inv_def initialWriter_def goodParts_def bufAt_def)

section \<open>The interface of the operations\<close>

locale partition_writer =
  fixes ops :: "('x, 'r, 'a) writer_ops" and key :: "'r \<Rightarrow> int" and bsize :: nat
  assumes bsize_pos: "0 < bsize"
    and write_moves: "goodParts key bsize p \<Longrightarrow> op_valid ops x \<Longrightarrow> op_write ops x p = (p', out) \<Longrightarrow>
      movesTo key bsize (op_items ops x) p p' out"
    and stale_moves: "goodParts key bsize p \<Longrightarrow> distinct order \<Longrightarrow> op_stale ops order now p = (p', out) \<Longrightarrow>
      movesTo key bsize [] p p' out"
    and all_moves: "goodParts key bsize p \<Longrightarrow> distinct order \<Longrightarrow> op_all ops order p = (p', out) \<Longrightarrow>
      movesTo key bsize [] p p' out"
    and all_empties: "goodParts key bsize p \<Longrightarrow> set order = dom p \<Longrightarrow> op_all ops order p = (p', out) \<Longrightarrow>
      bufAt p' pk = []"
begin

lemma step_keeps_inv:
  assumes "writer_inv key bsize (op_sem ops) s" "writer_step ops s t"
  shows "writer_inv key bsize (op_sem ops) t"
  using assms(2)
proof cases
  case (WWrite x p out)
  then have "movesTo key bsize (op_items ops x) (ws_parts s) p out"
    using assms(1) write_moves by (auto simp: writer_inv_def)
  with WWrite assms(1) show ?thesis
    by (auto simp: writer_inv_def movesTo_def)
next
  case (WStale order now p out)
  then have "movesTo key bsize [] (ws_parts s) p out"
    using assms(1) stale_moves by (auto simp: writer_inv_def)
  with WStale assms(1) show ?thesis
    by (auto simp: writer_inv_def movesTo_def)
next
  case (WFinal order p out)
  then have "movesTo key bsize [] (ws_parts s) p out" "\<And>pk. bufAt p pk = []"
    using assms(1) all_moves all_empties by (auto simp: writer_inv_def)
  with WFinal assms(1) show ?thesis
    by (auto simp: writer_inv_def movesTo_def)
qed (use assms(1) in \<open>auto simp: writer_inv_def\<close>)

lemma closed_is_final:
  assumes "writer_inv key bsize (op_sem ops) s" "writerClosed s" "writer_step ops s t"
  shows "writerClosed t"
  using assms(3,1,2) by cases (auto simp: writer_inv_def writerClosed_def)

lemma admitted_grows: "writer_step ops s t \<Longrightarrow> writerAdmitted s \<subseteq># writerAdmitted t"
  by (elim writer_stepE) (auto simp: writerAdmitted_def)

lemma settled_grows: "writer_step ops s t \<Longrightarrow> writerSettled s \<subseteq># writerSettled t"
  by (elim writer_stepE) (auto simp: writerSettled_def)

end

sublocale partition_writer \<subseteq> writer: closing_sink "writer_step ops"
    "writer_inv key bsize (op_sem ops)" writerAdmitted writerHeld writerSettled writerClosed
  by unfold_locales
     (auto intro: step_keeps_inv writer_accounts writer_closed_empty closed_is_final admitted_grows settled_grows)

sublocale partition_writer \<subseteq> running: bounded_sink "writer_step ops"
    "writer_inv key bsize (op_sem ops)" writerAdmitted writerHeld writerSettled
    "\<lambda>s. length (ws_running s)" "op_sem ops"
  by unfold_locales (simp add: writer_inv_def)

context partition_writer
begin

lemma reachable:
  "(writer_step ops)\<^sup>*\<^sup>* initialWriter s \<Longrightarrow> writer_inv key bsize (op_sem ops) s"
  using writer.run_inv writer_initial [OF bsize_pos] by blast

text \<open>Per partition, what was taken out and what is buffered is what was admitted, in order.\<close>

lemma partition_fifo:
  "(writer_step ops)\<^sup>*\<^sup>* initialWriter s \<Longrightarrow>
   keyed key pk (ws_admitted s) = keyed key pk (concat (ws_taken s)) @ bufAt (ws_parts s) pk"
  using reachable by (auto simp: writer_inv_def)

lemma buffers_small:
  "(writer_step ops)\<^sup>*\<^sup>* initialWriter s \<Longrightarrow> length (bufAt (ws_parts s) pk) < bsize"
  using reachable by (auto simp: writer_inv_def goodParts_def)

lemma batches_good:
  "(writer_step ops)\<^sup>*\<^sup>* initialWriter s \<Longrightarrow> b \<in> set (ws_running s) \<Longrightarrow> goodBatch key bsize b"
proof -
  assume "(writer_step ops)\<^sup>*\<^sup>* initialWriter s" "b \<in> set (ws_running s)"
  moreover from reachable [OF this(1)]
  have "set (ws_taken s) = set (ws_calling s @ ws_flushing s @ ws_running s @ map fst (ws_settled s))"
    by (intro mset_eq_setD) (simp add: writer_inv_def)
  ultimately show ?thesis using reachable [of s] by (simp add: writer_inv_def)
qed

lemma closed_complete:
  "(writer_step ops)\<^sup>*\<^sup>* initialWriter s \<Longrightarrow> writerClosed s \<Longrightarrow>
   mset (concat (map fst (ws_settled s))) = mset (ws_admitted s)"
  using writer.closed_settled [OF _ writer_initial [OF bsize_pos]]
  unfolding writerAdmitted_def writerSettled_def by blast

end

text \<open>Closing does end: a writer that buffers one batch can be driven to the end of its close.\<close>

lemma close_run:
  assumes "distinct order" "set order = dom p" "op_all ops order p = (p', [b])"
    and "op_insert ops answers = Some ok" "0 < op_sem ops"
  shows "(writer_step ops)\<^sup>*\<^sup>* (initialWriter\<lparr>ws_parts := p, ws_admitted := adm\<rparr>)
    (initialWriter\<lparr>ws_parts := p', ws_admitted := adm, ws_taken := [b], ws_done := True,
       ws_loop := Stopped, ws_settled := [(b, ok)]\<rparr>)"
proof -
  let ?sta = "initialWriter\<lparr>ws_parts := p, ws_admitted := adm\<rparr>"
  let ?stb = "?sta\<lparr>ws_done := True\<rparr>"
  let ?stc = "?stb\<lparr>ws_parts := p', ws_flushing := [b], ws_taken := ws_taken ?stb @ [b], ws_loop := Final\<rparr>"
  let ?std = "?stc\<lparr>ws_flushing := [], ws_running := ws_running ?stc @ [b]\<rparr>"
  let ?ste = "?std\<lparr>ws_running := [] @ [], ws_settled := ws_settled ?std @ [(b, ok)]\<rparr>"
  have 1: "writer_step ops ?sta ?stb" by (rule WClose) (simp_all add: initialWriter_def)
  have 2: "writer_step ops ?stb ?stc"
    by (rule WFinal [of _ order]) (use assms in \<open>simp_all add: initialWriter_def\<close>)
  have 3: "writer_step ops ?stc ?std" by (rule WFlush) (use assms in \<open>simp_all add: initialWriter_def\<close>)
  have 4: "writer_step ops ?std ?ste"
    by (rule WInserted [OF _ assms(4)]) (simp add: initialWriter_def)
  have 5: "writer_step ops ?ste (?ste\<lparr>ws_loop := Stopped\<rparr>)"
    by (rule WStop) (simp_all add: initialWriter_def)
  from 1 have "(writer_step ops)\<^sup>*\<^sup>* ?sta ?stb" by (rule r_into_rtranclp)
  then have "(writer_step ops)\<^sup>*\<^sup>* ?sta ?stc" using 2 by (rule rtranclp.rtrancl_into_rtrancl)
  then have "(writer_step ops)\<^sup>*\<^sup>* ?sta ?std" using 3 by (rule rtranclp.rtrancl_into_rtrancl)
  then have "(writer_step ops)\<^sup>*\<^sup>* ?sta ?ste" using 4 by (rule rtranclp.rtrancl_into_rtrancl)
  then have "(writer_step ops)\<^sup>*\<^sup>* ?sta (?ste\<lparr>ws_loop := Stopped\<rparr>)"
    using 5 by (rule rtranclp.rtrancl_into_rtrancl)
  then show ?thesis by (simp add: initialWriter_def)
qed

section \<open>Taking whole buffers\<close>

text \<open>
  Both flushes walk the partitions and take the buffers that satisfy a condition; this is their
  common effect.
\<close>

fun takeWhere :: "('r partition_buffer \<Rightarrow> bool) \<Rightarrow> int list \<Rightarrow> 'r partitions \<Rightarrow> 'r partitions \<times> 'r list list" where
  "takeWhere ripe [] p = (p, [])"
| "takeWhere ripe (pk # pks) p =
     (case p pk of
        None \<Rightarrow> takeWhere ripe pks p
      | Some buf \<Rightarrow>
          if pb_records buf \<noteq> [] \<and> ripe buf then
            (let (p', out) = takeWhere ripe pks (p(pk \<mapsto> buf\<lparr>pb_records := []\<rparr>))
             in (p', pb_records buf # out))
          else takeWhere ripe pks p)"

lemma takeWhere_moves:
  "goodParts key bsize p \<Longrightarrow> takeWhere ripe pks p = (p', out) \<Longrightarrow> movesTo key bsize [] p p' out"
proof (induction pks arbitrary: p p' out)
  case (Cons pk pks)
  show ?case
  proof (cases "\<exists>buf. p pk = Some buf \<and> pb_records buf \<noteq> [] \<and> ripe buf")
    case True
    then obtain buf out' where b: "p pk = Some buf" "pb_records buf \<noteq> []" "ripe buf"
      and t: "takeWhere ripe pks (p(pk \<mapsto> buf\<lparr>pb_records := []\<rparr>)) = (p', out')" "out = pb_records buf # out'"
      using Cons.prems(2) by (auto split: prod.splits)
    let ?q = "p(pk \<mapsto> buf\<lparr>pb_records := []\<rparr>)"
    have buf: "bufAt p pk = pb_records buf" using b by (simp add: bufAt_def)
    have q: "goodParts key bsize ?q" using Cons.prems(1) by (auto simp: goodParts_def)
    then have moves: "movesTo key bsize [] ?q p' out'" using Cons.IH t(1) by blast
    have homog: "\<forall>r \<in> set (pb_records buf). key r = pk" "length (pb_records buf) < bsize"
      using Cons.prems(1) buf by (metis goodParts_def)+
    then have "goodBatch key bsize (pb_records buf)" using b(2) by (simp add: goodBatch_def)
    moreover have "bufAt p pk' = keyed key pk' (concat out) @ bufAt p' pk'" for pk'
      using moves keyed_all [OF homog(1), of pk'] by (auto simp: movesTo_def t(2) buf split: if_splits)
    ultimately show ?thesis using moves by (simp add: movesTo_def t(2))
  next
    case False
    then have "takeWhere ripe pks p = (p', out)"
      using Cons.prems(2) by (auto split: option.splits if_splits)
    with Cons show ?thesis by blast
  qed
qed (simp add: movesTo_def)

lemma takeWhere_empties:
  "takeWhere (\<lambda>_. True) pks p = (p', out) \<Longrightarrow> (\<And>pk. bufAt p pk \<noteq> [] \<Longrightarrow> pk \<in> set pks) \<Longrightarrow>
   bufAt p' pk = []"
proof (induction pks arbitrary: p p' out)
  case Nil
  then show ?case by auto
next
  case (Cons k pks)
  show ?case
  proof (cases "bufAt p k = []")
    case True
    then have "takeWhere (\<lambda>_. True) pks p = (p', out)"
      using Cons.prems(1) by (auto simp: bufAt_def split: option.splits)
    moreover have "pk \<in> set pks" if "bufAt p pk \<noteq> []" for pk
      using Cons.prems(2) [OF that] that True by auto
    ultimately show ?thesis by (rule Cons.IH)
  next
    case False
    then obtain buf where b: "p k = Some buf" "pb_records buf \<noteq> []"
      by (auto simp: bufAt_def split: option.splits)
    let ?q = "p(k \<mapsto> buf\<lparr>pb_records := []\<rparr>)"
    obtain out' where "takeWhere (\<lambda>_. True) pks ?q = (p', out')"
      using Cons.prems(1) b by (auto split: prod.splits)
    moreover have "pk \<in> set pks" if "bufAt ?q pk \<noteq> []" for pk
      using Cons.prems(2) [of pk] that by (auto split: if_splits)
    ultimately show ?thesis by (rule Cons.IH)
  qed
qed

section \<open>Bounded retries\<close>

text \<open>
  The loop \<^verbatim>\<open>for attempt := 0; attempt < maxRetries; attempt++\<close> that both writers and the delete
  queue use: every attempt but the first sleeps first. \<open>answers\<close> says which attempts succeed; the
  result is the delays slept and whether an attempt succeeded, \<^const>\<open>None\<close> while the answers given
  do not decide it.
\<close>

fun retryLoop :: "nat \<Rightarrow> (nat \<Rightarrow> int) \<Rightarrow> nat \<Rightarrow> bool list \<Rightarrow> int list \<times> bool option" where
  "retryLoop maxRetries delay attempt [] =
     (if attempt < maxRetries then (if attempt > 0 then [delay attempt] else [], None) else ([], Some False))"
| "retryLoop maxRetries delay attempt (ok # answers) =
     (if attempt < maxRetries then
        (let slept = (if attempt > 0 then [delay attempt] else [])
         in if ok then (slept, Some True)
            else (let (more, result) = retryLoop maxRetries delay (Suc attempt) answers
                  in (slept @ more, result)))
      else ([], Some False))"

lemma retryLoop_result:
  "snd (retryLoop m d a answers) =
     (if True \<in> set (take (m - a) answers) then Some True
      else if m - a \<le> length answers then Some False else None)"
proof (induction answers arbitrary: a)
  case (Cons ok answers)
  show ?case
  proof (cases "a < m")
    case True
    then have "m - a = Suc (m - Suc a)" by simp
    with True Cons.IH [of "Suc a"] show ?thesis by (auto simp: Let_def split: prod.splits)
  qed simp
qed simp

lemma retryLoop_slept:
  "\<exists>n. fst (retryLoop m d a answers) = map d (take n (filter (\<lambda>k. 0 < k) [a..<m]))"
proof (induction answers arbitrary: a)
  case Nil
  show ?case
  proof (cases "a < m \<and> 0 < a")
    case True
    then have "[a..<m] = a # [Suc a..<m]" by (simp add: upt_conv_Cons)
    with True show ?thesis by (auto intro!: exI [of _ 1])
  next
    case False
    then show ?thesis by (auto intro!: exI [of _ 0])
  qed
next
  case (Cons ok answers)
  show ?case
  proof (cases "a < m")
    case True
    then have u: "[a..<m] = a # [Suc a..<m]" by (simp add: upt_conv_Cons)
    obtain n where n: "fst (retryLoop m d (Suc a) answers) = map d (take n (filter (\<lambda>k. 0 < k) [Suc a..<m]))"
      using Cons.IH by blast
    let ?k = "if ok then if 0 < a then 1 else 0 else if 0 < a then Suc n else n"
    have "fst (retryLoop m d a (ok # answers)) = map d (take ?k (filter (\<lambda>k. 0 < k) [a..<m]))"
      using True n unfolding u by (auto simp: Let_def split: prod.splits)
    then show ?thesis by blast
  qed (auto intro: exI [of _ 0])
qed

lemma sum_list_take_le: "(\<And>x. x \<in> set xs \<Longrightarrow> 0 \<le> (x :: int)) \<Longrightarrow> sum_list (take n xs) \<le> sum_list xs"
proof -
  assume "\<And>x. x \<in> set xs \<Longrightarrow> 0 \<le> x"
  then have "0 \<le> sum_list (drop n xs)" by (auto intro!: sum_list_nonneg dest: in_set_dropD)
  then show ?thesis
    using sum_list_append [of "take n xs" "drop n xs"] by simp
qed

text \<open>Whatever the answers, the time slept is bounded by the sum of all delays.\<close>

lemma retryLoop_total:
  assumes "\<And>k. 0 < k \<Longrightarrow> k < m \<Longrightarrow> 0 \<le> d k"
  shows "sum_list (fst (retryLoop m d 0 answers)) \<le> sum_list (map d (filter (\<lambda>k. 0 < k) [0..<m]))"
proof -
  obtain n where "fst (retryLoop m d 0 answers) = map d (take n (filter (\<lambda>k. 0 < k) [0..<m]))"
    using retryLoop_slept by blast
  then show ?thesis
    by (simp only: take_map [symmetric]) (rule sum_list_take_le, auto intro: assms)
qed

end
