(* ===== verification/BatchWriter.thy ===== *)
theory BatchWriter
  imports Partitions Models GoFloat
begin

text \<open>
  The ClickHouse record writer (\<^verbatim>\<open>ingest/writer.go\<close>): records buffered per month partition, full
  buffers handed out by \<^verbatim>\<open>WriteRecord\<close>, stale ones by the flush loop, all of them at shutdown;
  the insert with its back-off, and the part-count cache that delays it. It interprets the interface
  \<open>partition_writer\<close> of theory Partitions.
\<close>

section \<open>Partitions and buffers\<close>

abbreviation (input) DefaultBatchSize :: nat where "DefaultBatchSize \<equiv> 50000"
definition DefaultPartitionMaxAge :: int where "DefaultPartitionMaxAge = 5 * Second"

definition partitionKey :: "gotime \<Rightarrow> int" where
  "partitionKey t = (if Year t < 2023 then 202200 else Year t * 100 + Month t)"

definition bw_WriteRecord :: "grecord \<Rightarrow> grecord partitions \<Rightarrow> grecord partitions \<times> grecord list option" where
  "bw_WriteRecord r p =
     (let pk = partitionKey (rec_CreatedAt r);
          records = bufAt p pk @ [r]
      in if length records \<ge> DefaultBatchSize
         then (p(pk \<mapsto> \<lparr>pb_records = [], pb_lastWrite = rec_IndexedAt r\<rparr>), Some records)
         else (p(pk \<mapsto> \<lparr>pb_records = records, pb_lastWrite = rec_IndexedAt r\<rparr>), None))"

text \<open>The flush loop walks \<^verbatim>\<open>w.partitions\<close> in an order Go does not fix: \<open>order\<close>.\<close>

fun bw_flushStalePartitions :: "int list \<Rightarrow> gotime \<Rightarrow> grecord partitions \<Rightarrow> grecord partitions \<times> grecord list list" where
  "bw_flushStalePartitions [] now p = (p, [])"
| "bw_flushStalePartitions (pk # order) now p =
     (case p pk of
        None \<Rightarrow> bw_flushStalePartitions order now p
      | Some buf \<Rightarrow>
          if pb_records buf \<noteq> [] \<and> Sub now (pb_lastWrite buf) > DefaultPartitionMaxAge then
            (let (p', toFlush) = bw_flushStalePartitions order now (p(pk \<mapsto> buf\<lparr>pb_records := []\<rparr>))
             in (p', pb_records buf # toFlush))
          else bw_flushStalePartitions order now p)"

fun bw_FlushAll :: "int list \<Rightarrow> grecord partitions \<Rightarrow> grecord partitions \<times> grecord list list" where
  "bw_FlushAll [] p = (p, [])"
| "bw_FlushAll (pk # order) p =
     (case p pk of
        None \<Rightarrow> bw_FlushAll order p
      | Some buf \<Rightarrow>
          if pb_records buf \<noteq> [] then
            (let (p', toFlush) = bw_FlushAll order (p(pk \<mapsto> buf\<lparr>pb_records := []\<rparr>))
             in (p', pb_records buf # toFlush))
          else bw_FlushAll order p)"

section \<open>Inserting\<close>

abbreviation (input) bw_maxRetries :: nat where "bw_maxRetries \<equiv> 12"

text \<open>\<^verbatim>\<open>baseDelay * time.Duration(1<<uint(attempt-1))\<close>, capped.\<close>

definition bw_delay :: "nat \<Rightarrow> int" where
  "bw_delay attempt =
     (let delay = wrap64 (500 * Millisecond * wrap64 (2 ^ (attempt - 1)))
      in if delay > 30 * Second then 30 * Second else delay)"

text \<open>
  \<^verbatim>\<open>doInsertRecords\<close> returns an error exactly when the batch cannot be prepared or sent; a failed
  append is only logged, and the record is then missing from the batch that is sent. \<open>prepared\<close>, \<open>sent\<close>
  and \<open>appended\<close> (one flag per record) are the answers of the driver.
\<close>

record insert_answer =
  ia_prepared :: bool
  ia_appended :: "bool list"
  ia_sent :: bool

definition bw_doInsertRecords :: "insert_answer \<Rightarrow> grecord list \<Rightarrow> uint64 \<Rightarrow> grecord list option \<times> uint64" where
  "bw_doInsertRecords a records written =
     (if \<not> ia_prepared a \<or> \<not> ia_sent a then (None, written)
      else (Some (map fst (filter snd (zip records (ia_appended a)))), written + of_nat (length records)))"

definition bw_insertRecords :: "bool list \<Rightarrow> int list \<times> bool option" where
  "bw_insertRecords answers = retryLoop bw_maxRetries bw_delay 0 answers"

section \<open>Waiting for merges\<close>

record part_cache =
  partCount :: uint64
  partCountTime :: gotime

definition zeroTime :: gotime where
  "zeroTime = \<lparr>tsec = -62135596800, tnsec = 0, toff = 0\<rparr>"

text \<open>\<open>now\<close>, \<open>now2\<close>, \<open>now3\<close> are the three clock readings, \<open>answer\<close> what the query returns if it is run.\<close>

definition getPartCount :: "gotime \<Rightarrow> gotime \<Rightarrow> gotime \<Rightarrow> uint64 option \<Rightarrow> part_cache \<Rightarrow> uint64 \<times> part_cache" where
  "getPartCount now now2 now3 answer c =
     (if Sub now (partCountTime c) < Second then (partCount c, c)
      else if Sub now2 (partCountTime c) < Second then (partCount c, c)
      else case answer of
        None \<Rightarrow> (partCount c, c)
      | Some n \<Rightarrow> (n, c\<lparr>partCount := n, partCountTime := now3\<rparr>))"

abbreviation (input) partThreshold :: uint64 where "partThreshold \<equiv> 3000"

record merge_round =
  mr_now :: gotime
  mr_now2 :: gotime
  mr_now3 :: gotime
  mr_answer :: "uint64 option"
  mr_expired :: bool

text \<open>The number of rounds waited; \<^const>\<open>None\<close> while the rounds given do not end the wait.\<close>

fun waitForMerges :: "merge_round list \<Rightarrow> part_cache \<Rightarrow> (nat \<times> part_cache) option" where
  "waitForMerges [] c = None"
| "waitForMerges (m # ms) c =
     (let (count, c') = getPartCount (mr_now m) (mr_now2 m) (mr_now3 m) (mr_answer m) c in
      if count < partThreshold then Some (0, c')
      else if mr_expired m then Some (0, c')
      else map_option (\<lambda>(n, c). (Suc n, c)) (waitForMerges ms (c'\<lparr>partCountTime := zeroTime\<rparr>)))"

section \<open>Throughput\<close>

text \<open>
  A tick of \<^verbatim>\<open>statsLoop\<close>: the total and the records since the last tick, both \<^verbatim>\<open>uint64\<close>, the
  elapsed time, and the rate as the \<^verbatim>\<open>float64\<close> quotient (none for an elapsed time of zero, where Go
  has an infinity or NaN); its text with one decimal is not modelled.
\<close>

record throughput =
  tp_lastStatsTime :: gotime
  tp_lastRecordCount :: uint64

record throughput_log =
  tl_total :: uint64
  tl_diff :: uint64
  tl_rps :: "rat option"

definition Seconds :: "int \<Rightarrow> rat" where
  "Seconds d = fl (fl (of_int (d div Second)) + fl (fl (of_int (d mod Second)) / 1000000000))"

definition statsTick :: "gotime \<Rightarrow> uint64 \<Rightarrow> throughput \<Rightarrow> throughput_log \<times> throughput" where
  "statsTick now recordsWritten t =
     (let elapsed = Seconds (Sub now (tp_lastStatsTime t));
          recordsDiff = recordsWritten - tp_lastRecordCount t
      in (\<lparr>tl_total = recordsWritten, tl_diff = recordsDiff,
           tl_rps = (if elapsed = 0 then None else Some (fl (fl (of_nat (unat recordsDiff)) / elapsed)))\<rparr>,
          \<lparr>tp_lastStatsTime = now, tp_lastRecordCount = recordsWritten\<rparr>))"

text \<open>The loop: at each tick the clock and the counter are read.\<close>

fun statsLoop :: "(gotime \<times> uint64) list \<Rightarrow> throughput \<Rightarrow> throughput_log list \<times> throughput" where
  "statsLoop [] t = ([], t)"
| "statsLoop ((now, recordsWritten) # ticks) t =
     (let (l, t) = statsTick now recordsWritten t; (ls, t) = statsLoop ticks t in (l # ls, t))"

text \<open>The logged differences add up to the counter, wrap-around included.\<close>

lemma statsLoop_adds_up:
  "statsLoop ticks t = (ls, t') \<Longrightarrow>
     tp_lastRecordCount t' = tp_lastRecordCount t + sum_list (map tl_diff ls)"
proof (induction ticks arbitrary: t ls)
  case (Cons tick ticks)
  then show ?case
    by (cases tick) (fastforce simp: statsTick_def Let_def split: prod.splits)
qed simp

section \<open>The writer as an instance of the interface\<close>

definition bw_ops :: "(grecord, grecord, bool list) writer_ops" where
  "bw_ops = \<lparr>op_items = (\<lambda>r. [r]), op_valid = (\<lambda>_. True),
     op_write = (\<lambda>r p. let (p', out) = bw_WriteRecord r p in (p', case out of None \<Rightarrow> [] | Some b \<Rightarrow> [b])),
     op_stale = bw_flushStalePartitions, op_all = bw_FlushAll,
     op_insert = (\<lambda>answers. snd (bw_insertRecords answers)), op_sem = 30\<rparr>"

abbreviation bw_key :: "grecord \<Rightarrow> int" where "bw_key r \<equiv> partitionKey (rec_CreatedAt r)"

lemma bw_stale_take:
  "bw_flushStalePartitions order now p
   = takeWhere (\<lambda>buf. Sub now (pb_lastWrite buf) > DefaultPartitionMaxAge) order p"
  by (induction order arbitrary: p) (auto split: option.splits)

lemma bw_all_take: "bw_FlushAll order p = takeWhere (\<lambda>_. True) order p"
  by (induction order arbitrary: p) (auto split: option.splits)

lemma bw_write_moves:
  assumes "goodParts bw_key DefaultBatchSize p" "op_write bw_ops r p = (p', out)"
  shows "movesTo bw_key DefaultBatchSize (op_items bw_ops r) p p' out"
proof -
  let ?pk = "bw_key r"
  let ?rs = "bufAt p ?pk @ [r]"
  have small: "length (bufAt p ?pk) < DefaultBatchSize" and homog: "\<forall>x \<in> set ?rs. bw_key x = ?pk"
    using assms(1) by (auto simp: goodParts_def)
  have parts: "goodParts bw_key DefaultBatchSize (p(?pk \<mapsto> \<lparr>pb_records = b, pb_lastWrite = t\<rparr>))"
    if "length b < DefaultBatchSize" "\<forall>x \<in> set b. bw_key x = ?pk" for b t
    using assms(1) that by (auto simp: goodParts_def)
  show ?thesis
  proof (cases "length ?rs \<ge> DefaultBatchSize")
    case True
    then have p': "p' = p(?pk \<mapsto> \<lparr>pb_records = [], pb_lastWrite = rec_IndexedAt r\<rparr>)" and out: "out = [?rs]"
      using assms(2) by (auto simp: bw_ops_def bw_WriteRecord_def Let_def)
    have "length ?rs \<le> DefaultBatchSize" using small by simp
    then have "goodBatch bw_key DefaultBatchSize ?rs" by (intro goodBatchI [OF _ _ homog]) simp_all
    then show ?thesis
      using parts [of "[]"] keyed_all [OF homog]
      by (simp add: movesTo_def p' out bw_ops_def keyed_def)
  next
    case False
    then have "p' = p(?pk \<mapsto> \<lparr>pb_records = ?rs, pb_lastWrite = rec_IndexedAt r\<rparr>)" "out = []"
      using assms(2) by (auto simp: bw_ops_def bw_WriteRecord_def Let_def)
    then show ?thesis
      using parts [OF _ homog] False by (simp add: movesTo_def bw_ops_def keyed_def)
  qed
qed

interpretation bw: partition_writer bw_ops bw_key DefaultBatchSize
proof unfold_locales
  fix p :: "grecord partitions" and order now p' out pk
  assume good: "goodParts bw_key DefaultBatchSize p"
  show "op_stale bw_ops order now p = (p', out) \<Longrightarrow> movesTo bw_key DefaultBatchSize [] p p' out"
    using takeWhere_moves [OF good] by (simp add: bw_ops_def bw_stale_take)
  show "op_all bw_ops order p = (p', out) \<Longrightarrow> movesTo bw_key DefaultBatchSize [] p p' out"
    using takeWhere_moves [OF good] by (simp add: bw_ops_def bw_all_take)
  have "bufAt p k \<noteq> [] \<Longrightarrow> k \<in> dom p" for k by (auto simp: bufAt_def split: option.splits)
  then show "set order = dom p \<Longrightarrow> op_all bw_ops order p = (p', out) \<Longrightarrow> bufAt p' pk = []"
    using takeWhere_empties [of order p p' out pk] by (auto simp: bw_ops_def bw_all_take)
qed (simp_all add: bw_write_moves)

section \<open>Lemmas\<close>

lemma bw_delay_eq: "0 < a \<Longrightarrow> a < 12 \<Longrightarrow> bw_delay a = min 30000000000 (500000000 * 2 ^ (a - 1))"
proof -
  assume "0 < a" "a < 12"
  then have "a \<in> {1, 2, 3, 4, 5, 6, 7, 8, 9, 10, 11}" by simp presburger
  then show ?thesis
    by (elim insertE emptyE)
       (simp_all add: bw_delay_def Let_def wrap64_def Millisecond_def Second_def)
qed

text \<open>
  The expression \<^verbatim>\<open>if(toYear(created_at) < 2023, 202200, toYYYYMM(created_at))\<close> of
  \<^verbatim>\<open>schema.sql\<close>, on a server whose time zone is UTC.
\<close>

definition schemaPartition :: "gotime \<Rightarrow> int" where
  "schemaPartition t =
     (let u = UTC t in if Year u < 2023 then 202200 else Year u * 100 + Month u)"

definition fresh_round :: "merge_round \<Rightarrow> bool" where
  "fresh_round m \<longleftrightarrow> mr_answer m \<noteq> None
     \<and> Second \<le> Sub (mr_now m) zeroTime \<and> Second \<le> Sub (mr_now2 m) zeroTime"

definition ends_wait :: "merge_round \<Rightarrow> bool" where
  "ends_wait m \<longleftrightarrow> the (mr_answer m) < partThreshold \<or> mr_expired m"

section \<open>Properties\<close>

text \<open>C9. The record writer keeps every partition in order and loses nothing on the way to the
  database: at every moment, for every partition, the records admitted to it are those in the batches
  taken so far, in order, followed by those buffered; and a batch belongs to one partition, is not
  empty and has at most 50000 records, while no buffer reaches 50000.\<close>

theorem record_partitions_fifo:
  assumes "(writer_step bw_ops)\<^sup>*\<^sup>* initialWriter s"
  shows "keyed bw_key pk (ws_admitted s) = keyed bw_key pk (concat (ws_taken s)) @ bufAt (ws_parts s) pk
    \<and> length (bufAt (ws_parts s) pk) < DefaultBatchSize
    \<and> (\<forall>b \<in> set (ws_running s). goodBatch bw_key DefaultBatchSize b) \<and> length (ws_running s) \<le> 30"
  using bw.partition_fifo [OF assms] bw.buffers_small [OF assms] bw.batches_good [OF assms]
    bw.reachable [OF assms] by (simp add: writer_inv_def bw_ops_def)

definition demoRecord :: grecord where
  "demoRecord = \<lparr>rec_URI = ''at://d/c/r'', rec_DID = ''d'', rec_Collection = ''c'', rec_Rkey = ''r'',
     rec_Record = '''', rec_CreatedAt = \<lparr>tsec = 1700000000, tnsec = 0, toff = 0\<rparr>,
     rec_IndexedAt = \<lparr>tsec = 1700000001, tnsec = 0, toff = 0\<rparr>, rec_Seq = 0\<rparr>"

lemma demoRecord_key: "partitionKey (rec_CreatedAt demoRecord) = 202311"
  by code_simp

definition demoParts :: "grecord partitions" where
  "demoParts = [202311 \<mapsto> \<lparr>pb_records = [demoRecord], pb_lastWrite = rec_IndexedAt demoRecord\<rparr>]"

definition demoWriter :: "grecord writer_sys" where
  "demoWriter = initialWriter\<lparr>ws_parts := demoParts, ws_admitted := [demoRecord]\<rparr>"

lemma demoWriter_reachable: "(writer_step bw_ops)\<^sup>*\<^sup>* initialWriter demoWriter"
proof -
  have "bw_WriteRecord demoRecord (ws_parts initialWriter) = (demoParts, None)"
    by (simp add: bw_WriteRecord_def demoRecord_key initialWriter_def bufAt_def demoParts_def Let_def)
  then have "op_write bw_ops demoRecord (ws_parts initialWriter) = (demoParts, [])"
    by (simp add: bw_ops_def)
  then have "writer_step bw_ops initialWriter (initialWriter\<lparr>ws_parts := demoParts,
      ws_calling := ws_calling initialWriter @ [],
      ws_admitted := ws_admitted initialWriter @ op_items bw_ops demoRecord,
      ws_taken := ws_taken initialWriter @ []\<rparr>)"
    by (rule WWrite [rotated 2]) (simp_all add: initialWriter_def bw_ops_def)
  then show ?thesis by (simp add: demoWriter_def initialWriter_def bw_ops_def)
qed

theorem record_partitions_fifo_witness:
  "keyed bw_key 202311 (ws_admitted demoWriter) = [] @ [demoRecord]"
  using record_partitions_fifo [OF demoWriter_reachable, of 202311]
  by (simp add: demoWriter_def initialWriter_def demoParts_def bufAt_def)

text \<open>C10. When \<^verbatim>\<open>Close\<close> of the record writer returns, every record it ever admitted has been
  handed to an insert that ended, exactly once, whatever the interleaving of producers, flushes and
  inserts; nothing is buffered or in flight.\<close>

theorem record_close_complete:
  assumes "(writer_step bw_ops)\<^sup>*\<^sup>* initialWriter s" "writerClosed s"
  shows "mset (concat (map fst (ws_settled s))) = mset (ws_admitted s)
    \<and> writerHeld s = {#} \<and> (\<forall>t. (writer_step bw_ops)\<^sup>*\<^sup>* s t \<longrightarrow> writerClosed t)"
  using bw.closed_complete [OF assms] writer_closed_empty [OF bw.reachable [OF assms(1)] assms(2)]
    bw.writer.run_closed [of s] bw.reachable [OF assms(1)] assms(2) by blast

definition demoClosed :: "grecord writer_sys" where
  "demoClosed = initialWriter\<lparr>ws_parts := fst (bw_FlushAll [202311] demoParts),
     ws_admitted := [demoRecord], ws_taken := [[demoRecord]], ws_done := True,
     ws_loop := Stopped, ws_settled := [([demoRecord], True)]\<rparr>"

lemma demoClosed_reachable: "(writer_step bw_ops)\<^sup>*\<^sup>* initialWriter demoClosed"
proof -
  have "(writer_step bw_ops)\<^sup>*\<^sup>* demoWriter demoClosed"
    unfolding demoWriter_def demoClosed_def
  proof (rule close_run [of "[202311]"])
    show "op_all bw_ops [202311] demoParts = (fst (bw_FlushAll [202311] demoParts), [[demoRecord]])"
      by (simp add: bw_ops_def demoParts_def)
    show "op_insert bw_ops [True] = Some True" by (simp add: bw_ops_def bw_insertRecords_def)
  qed (simp_all add: demoParts_def bw_ops_def)
  with demoWriter_reachable show ?thesis by (rule rtranclp_trans)
qed

theorem record_close_complete_witness:
  "mset (concat (map fst (ws_settled demoClosed))) = mset (ws_admitted demoClosed) \<and> writerHeld demoClosed = {#}"
  using record_close_complete [OF demoClosed_reachable]
  by (simp add: writerClosed_def demoClosed_def initialWriter_def)

text \<open>The partition the writer computes is the one of the schema's \<^verbatim>\<open>PARTITION BY\<close>
  (\<^verbatim>\<open>schema.sql\<close>, evaluated in UTC) for a time in UTC, so a batch of such records touches one
  partition; for a time with a zone offset it need not be.\<close>

theorem partition_matches_schema:
  assumes "toff t = 0"
  shows "partitionKey t = schemaPartition t"
proof -
  have "UTC t = t" using assms by (simp add: UTC_def)
  then show ?thesis by (simp add: partitionKey_def schemaPartition_def Let_def)
qed

theorem partition_matches_schema_witness:
  "partitionKey \<lparr>tsec = 1700000000, tnsec = 0, toff = 0\<rparr>
   = schemaPartition \<lparr>tsec = 1700000000, tnsec = 0, toff = 0\<rparr>"
  by (rule partition_matches_schema) simp

text \<open>A record created at 2024-01-31T23:30:00-01:00 is buffered under January, but belongs to the
  February partition of the table.\<close>

theorem partition_zone_mismatch:
  "map_option (\<lambda>t. (partitionKey t, schemaPartition t)) (parseTime False ''2024-01-31T23:30:00-01:00'')
   = Some (202401, 202402)"
  by code_simp

text \<open>Back-pressure: starting from an invalidated cache, with a clock past the year one and a
  database that answers, \<^verbatim>\<open>waitForMerges\<close> waits for exactly the rounds before the first one whose
  part count is below 3000 or that finds the context expired. No round is answered from the cache.\<close>

theorem merge_wait:
  assumes "\<forall>m \<in> set ms. fresh_round m"
  shows "map_option fst (waitForMerges ms (c\<lparr>partCountTime := zeroTime\<rparr>)) = Some n \<longleftrightarrow>
    n < length ms \<and> ends_wait (ms ! n) \<and> (\<forall>i < n. \<not> ends_wait (ms ! i))"
  using assms
proof (induction ms arbitrary: c n)
  case (Cons m ms)
  then obtain k where k: "mr_answer m = Some k" "\<not> Sub (mr_now m) zeroTime < Second"
    "\<not> Sub (mr_now2 m) zeroTime < Second" by (auto simp: fresh_round_def)
  show ?case
  proof (cases "ends_wait m")
    case True
    then show ?thesis using k by (cases n) (auto simp: ends_wait_def getPartCount_def)
  next
    case False
    have "map_option fst (waitForMerges (m # ms) (c\<lparr>partCountTime := zeroTime\<rparr>))
        = map_option Suc (map_option fst (waitForMerges ms ((c\<lparr>partCount := k\<rparr>)\<lparr>partCountTime := zeroTime\<rparr>)))"
      using False k
      by (simp add: ends_wait_def getPartCount_def option.map_comp comp_def case_prod_unfold)
    then show ?thesis
      using Cons.IH [of "c\<lparr>partCount := k\<rparr>" "n - 1"] Cons.prems False
      by (cases n) (auto simp: nth_Cons' less_Suc_eq_0_disj)
  qed
qed simp

theorem merge_wait_witness:
  "map_option fst (waitForMerges [\<lparr>mr_now = \<lparr>tsec = 0, tnsec = 0, toff = 0\<rparr>,
      mr_now2 = \<lparr>tsec = 0, tnsec = 0, toff = 0\<rparr>, mr_now3 = \<lparr>tsec = 0, tnsec = 0, toff = 0\<rparr>,
      mr_answer = Some 12, mr_expired = False\<rparr>]
    (\<lparr>partCount = 9000, partCountTime = zeroTime\<rparr>\<lparr>partCountTime := zeroTime\<rparr>)) = Some 0"
  by (subst merge_wait)
     (simp_all add: fresh_round_def ends_wait_def Sub_def zeroTime_def Second_def Millisecond_def Let_def)

text \<open>An insert is tried at most twelve times: it is reported lost exactly if the first twelve
  attempts all fail, it succeeds if one of them does, and the delays slept between them never add up to
  more than 181.5 seconds.\<close>

theorem record_insert_retries:
  "snd (bw_insertRecords answers) =
     (if True \<in> set (take 12 answers) then Some True
      else if 12 \<le> length answers then Some False else None)
   \<and> sum_list (fst (bw_insertRecords answers)) \<le> 181500 * Millisecond"
proof -
  have pos: "0 \<le> bw_delay k" if "0 < k" "k < 12" for k using bw_delay_eq [OF that] by simp
  have u: "filter (\<lambda>k. 0 < k) [0..<12] = [1, 2, 3, 4, 5, 6, 7, 8, 9, 10, 11 :: nat]"
    by (simp add: upt_rec)
  have "sum_list (map bw_delay (filter (\<lambda>k. 0 < k) [0..<12])) = 181500000000"
    unfolding u by (simp add: bw_delay_eq)
  then show ?thesis
    using retryLoop_result [of 12 bw_delay 0 answers] retryLoop_total [of 12 bw_delay answers, OF pos]
    by (simp add: bw_insertRecords_def Millisecond_def)
qed

end
