(* ===== verification/BacklinkWriter.thy ===== *)
theory BacklinkWriter
  imports Partitions Models GoLib
begin

text \<open>
  The ClickHouse backlink writer (\<^verbatim>\<open>ingest/backlinks.go\<close>): a call of \<^verbatim>\<open>Write\<close> groups its
  backlinks by partition, appends each group and hands out full batches of 10000; stale buffers and, at
  shutdown, all buffers are taken whole. It interprets the interface \<open>partition_writer\<close>.
\<close>

section \<open>Buffers\<close>

abbreviation (input) bl_batchSize :: nat where "bl_batchSize \<equiv> 10000"
definition bl_partitionAge :: int where "bl_partitionAge = 5 * Second"

definition backlinkPartitionKey :: "gotime \<Rightarrow> int" where
  "backlinkPartitionKey t = Year t * 100 + Month t"

text \<open>\<^verbatim>\<open>byPartition\<close>: the groups, in the order of the slice.\<close>

fun bl_group :: "backlink_record list \<Rightarrow> (int \<rightharpoonup> backlink_record list) \<Rightarrow> (int \<rightharpoonup> backlink_record list)" where
  "bl_group [] g = g"
| "bl_group (b # bs) g =
     (let pk = backlinkPartitionKey (blr_CreatedAt b)
      in bl_group bs (g(pk \<mapsto> (case g pk of None \<Rightarrow> [] | Some rs \<Rightarrow> rs) @ [b])))"

text \<open>\<^verbatim>\<open>for len(buf.records) >= w.batchSize\<close>: the full batches and what remains.\<close>

function bl_takeFull :: "backlink_record list \<Rightarrow> backlink_record list list \<times> backlink_record list" where
  "bl_takeFull records =
     (if length records \<ge> bl_batchSize then
        (let (full, remaining) = bl_takeFull (drop bl_batchSize records)
         in (take bl_batchSize records # full, remaining))
      else ([], records))"
  by pat_completeness auto
termination
  by (relation "measure length") auto

declare bl_takeFull.simps [simp del]

text \<open>The loop over \<^verbatim>\<open>byPartition\<close>, in the order Go happens to walk it.\<close>

fun bl_addGroups :: "gotime \<Rightarrow> int list \<Rightarrow> (int \<rightharpoonup> backlink_record list) \<Rightarrow> backlink_record partitions
    \<Rightarrow> backlink_record partitions \<times> backlink_record list list" where
  "bl_addGroups now [] g p = (p, [])"
| "bl_addGroups now (pk # order) g p =
     (case g pk of
        None \<Rightarrow> bl_addGroups now order g p
      | Some records \<Rightarrow>
          (let (full, remaining) = bl_takeFull (bufAt p pk @ records);
               (p', toFlush) =
                 bl_addGroups now order g (p(pk \<mapsto> \<lparr>pb_records = remaining, pb_lastWrite = now\<rparr>))
           in (p', full @ toFlush)))"

definition bl_Write :: "gotime \<Rightarrow> int list \<Rightarrow> backlink_record list \<Rightarrow> backlink_record partitions
    \<Rightarrow> backlink_record partitions \<times> backlink_record list list" where
  "bl_Write now order backlinks p =
     (if backlinks = [] then (p, [])
      else bl_addGroups now order (bl_group backlinks (\<lambda>_. None)) p)"

definition takePartitionLocked :: "int \<Rightarrow> backlink_record partitions \<Rightarrow>
    backlink_record partitions \<times> backlink_record list option" where
  "takePartitionLocked pk p =
     (case p pk of
        None \<Rightarrow> (p, None)
      | Some buf \<Rightarrow>
          if pb_records buf = [] then (p, None)
          else (p(pk \<mapsto> buf\<lparr>pb_records := []\<rparr>), Some (pb_records buf)))"

definition consOption :: "'r list option \<Rightarrow> 'r list list \<Rightarrow> 'r list list" where
  "consOption batch toFlush = (case batch of None \<Rightarrow> toFlush | Some records \<Rightarrow> records # toFlush)"

fun bl_flushStalePartitions :: "int list \<Rightarrow> gotime \<Rightarrow> backlink_record partitions \<Rightarrow>
    backlink_record partitions \<times> backlink_record list list" where
  "bl_flushStalePartitions [] now p = (p, [])"
| "bl_flushStalePartitions (pk # order) now p =
     (case p pk of
        None \<Rightarrow> bl_flushStalePartitions order now p
      | Some buf \<Rightarrow>
          if pb_records buf \<noteq> [] \<and> Sub now (pb_lastWrite buf) > bl_partitionAge then
            (let (q, batch) = takePartitionLocked pk p;
                 (p', toFlush) = bl_flushStalePartitions order now q
             in (p', consOption batch toFlush))
          else bl_flushStalePartitions order now p)"

fun bl_flushAll :: "int list \<Rightarrow> backlink_record partitions \<Rightarrow>
    backlink_record partitions \<times> backlink_record list list" where
  "bl_flushAll [] p = (p, [])"
| "bl_flushAll (pk # order) p =
     (let (q, batch) = takePartitionLocked pk p;
          (p', toFlush) = bl_flushAll order q
      in (p', consOption batch toFlush))"

section \<open>Inserting\<close>

text \<open>An error is its message; \<^const>\<open>None\<close> is no error.\<close>

definition isTooManyParts :: "string option \<Rightarrow> bool" where
  "isTooManyParts err = (case err of None \<Rightarrow> False | Some msg \<Rightarrow> Contains msg ''Too many parts'')"

text \<open>Rounds of \<^verbatim>\<open>waitForMerges\<close>: the part count, or an error, and whether the context is done.
  The result is the number of waits.\<close>

fun bl_waitForMerges :: "(uint64 option \<times> bool) list \<Rightarrow> nat option" where
  "bl_waitForMerges [] = None"
| "bl_waitForMerges ((answer, expired) # rounds) =
     (case answer of
        None \<Rightarrow> Some 0
      | Some partCount \<Rightarrow>
          if partCount < 3000 then Some 0
          else if expired then Some 0
          else map_option Suc (bl_waitForMerges rounds))"

definition bl_delay :: "nat \<Rightarrow> int" where
  "bl_delay attempt =
     (let delay = wrap64 (500 * Millisecond * wrap64 (2 ^ (attempt - 1)))
      in if delay > 30 * Second then 30 * Second else delay)"

text \<open>What the retry loop does between its attempts.\<close>

datatype bl_event = Slept int | WaitedForMerges

fun bl_attempts :: "nat \<Rightarrow> string option list \<Rightarrow> bl_event list \<times> bool option" where
  "bl_attempts attempt answers =
     (if attempt < 12 then
        (let slept = (if attempt > 0 then [Slept (bl_delay attempt)] else [])
         in case answers of
              [] \<Rightarrow> (slept, None)
            | err # rest \<Rightarrow>
                if err = None then (slept, Some True)
                else (let (more, result) = bl_attempts (Suc attempt) rest
                      in (slept @ (if isTooManyParts err then [WaitedForMerges] else []) @ more, result)))
      else ([], Some False))"

declare bl_attempts.simps [simp del]

definition bl_insertRecords :: "string option list \<Rightarrow> bl_event list \<times> bool option" where
  "bl_insertRecords = bl_attempts 0"

text \<open>
  One attempt. \<^verbatim>\<open>records[0]\<close> in the closing log line panics on an empty batch:
  \<open>IndexOutOfRange\<close>. A row is the reference, the code of its type, and the source URI.
\<close>

datatype bl_outcome = BatchFailed | BatchWritten "(string \<times> int \<times> string) list" uint64 | IndexOutOfRange

definition refTypeCode :: "backlink_record \<Rightarrow> int" where
  "refTypeCode r = (if blr_RefType r = ''uri'' then 2 else 1)"

definition bl_doInsertRecords :: "bool \<Rightarrow> bool list \<Rightarrow> bool \<Rightarrow> backlink_record list \<Rightarrow> uint64 \<Rightarrow> bl_outcome" where
  "bl_doInsertRecords prepared appended sent records written =
     (if \<not> prepared \<or> \<not> sent then BatchFailed
      else if records = [] then IndexOutOfRange
      else BatchWritten
        (map (\<lambda>(r, _). (blr_Ref r, refTypeCode r, blr_SourceURI r)) (filter snd (zip records appended)))
        (written + of_nat (length records)))"

section \<open>Lemmas\<close>

abbreviation bl_key :: "backlink_record \<Rightarrow> int" where
  "bl_key b \<equiv> backlinkPartitionKey (blr_CreatedAt b)"

lemma bl_group_keyed:
  "bl_group bs g pk =
     (if keyed bl_key pk bs = [] then g pk
      else Some ((case g pk of None \<Rightarrow> [] | Some rs \<Rightarrow> rs) @ keyed bl_key pk bs))"
proof (induction bs arbitrary: g)
  case (Cons b bs)
  show ?case by (cases "bl_key b = pk") (simp_all add: Cons.IH Let_def keyed_def)
qed simp

lemma bl_takeFull_moves:
  "bl_takeFull rs = (full, rest) \<Longrightarrow> rs = concat full @ rest \<and> length rest < bl_batchSize
     \<and> (\<forall>b \<in> set full. b \<noteq> [] \<and> length b = bl_batchSize)"
proof (induction rs arbitrary: full rest rule: bl_takeFull.induct)
  case (1 rs)
  show ?case
  proof (cases "length rs \<ge> bl_batchSize")
    case True
    obtain full' rest' where t: "bl_takeFull (drop bl_batchSize rs) = (full', rest')" by fastforce
    with True 1(2) have f: "full = take bl_batchSize rs # full'" "rest = rest'"
      by (subst (asm) bl_takeFull.simps, simp)+
    have IH: "drop bl_batchSize rs = concat full' @ rest' \<and> length rest' < bl_batchSize
        \<and> (\<forall>b \<in> set full'. b \<noteq> [] \<and> length b = bl_batchSize)"
      by (rule 1(1) [OF True t])
    have len: "length (take bl_batchSize rs) = bl_batchSize" using True by simp
    then have ne: "take bl_batchSize rs \<noteq> []" by force
    have "concat full @ rest = take bl_batchSize rs @ drop bl_batchSize rs" using IH by (simp add: f)
    then have "rs = concat full @ rest" by (simp only: append_take_drop_id)
    moreover have "\<forall>b \<in> set full. b \<noteq> [] \<and> length b = bl_batchSize"
      unfolding f using IH len ne by (simp only: list.set ball_simps) blast
    ultimately show ?thesis using IH f(2) by blast
  next
    case False
    with 1(2) have "full = []" "rest = rs" by (subst (asm) bl_takeFull.simps, simp)+
    with False show ?thesis by simp
  qed
qed

text \<open>What a walk over \<open>order\<close> still adds to a partition.\<close>

definition groupAt :: "(int \<rightharpoonup> backlink_record list) \<Rightarrow> int list \<Rightarrow> int \<Rightarrow> backlink_record list" where
  "groupAt g order pk = (if pk \<in> set order then case g pk of None \<Rightarrow> [] | Some rs \<Rightarrow> rs else [])"

lemma groupAt_simps [simp]:
  "groupAt g [] pk = []"
  "g k = None \<Longrightarrow> groupAt g (k # order) pk = groupAt g order pk"
  "pk \<noteq> k \<Longrightarrow> groupAt g (k # order) pk = groupAt g order pk"
  "g k = Some rs \<Longrightarrow> groupAt g (k # order) k = rs"
  "k \<notin> set order \<Longrightarrow> groupAt g order k = []"
  by (auto simp: groupAt_def)

lemma bl_addGroups_moves:
  assumes "goodParts bl_key bl_batchSize p" "distinct order"
    and "\<And>pk rs. g pk = Some rs \<Longrightarrow> \<forall>r \<in> set rs. bl_key r = pk"
    and "bl_addGroups now order g p = (p', out)"
  shows "goodParts bl_key bl_batchSize p' \<and> (\<forall>b \<in> set out. goodBatch bl_key bl_batchSize b)
    \<and> (\<forall>pk. bufAt p pk @ groupAt g order pk
          = keyed bl_key pk (concat out) @ bufAt p' pk)"
  using assms
proof (induction order arbitrary: p p' out)
  case (Cons k order)
  show ?case
  proof (cases "g k")
    case None
    then have "bl_addGroups now order g p = (p', out)" using Cons.prems(4) by simp
    then show ?thesis using Cons.IH [OF Cons.prems(1) _ Cons.prems(3)] Cons.prems(2) None by simp
  next
    case (Some rs)
    obtain full rest where tf: "bl_takeFull (bufAt p k @ rs) = (full, rest)" by fastforce
    let ?q = "p(k \<mapsto> \<lparr>pb_records = rest, pb_lastWrite = now\<rparr>)"
    obtain out' where ag: "bl_addGroups now order g ?q = (p', out')" and out: "out = full @ out'"
      using Cons.prems(4) Some tf by (auto split: prod.splits)
    note full = bl_takeFull_moves [OF tf]
    have homog: "\<forall>r \<in> set (concat full @ rest). bl_key r = k"
      using full Cons.prems(1) Cons.prems(3) [OF Some] by (metis Un_iff goodParts_def set_append)
    have q: "goodParts bl_key bl_batchSize ?q"
      using Cons.prems(1) full homog by (auto simp: goodParts_def)
    have IH: "goodParts bl_key bl_batchSize p' \<and> (\<forall>b \<in> set out'. goodBatch bl_key bl_batchSize b)
      \<and> (\<forall>pk. bufAt ?q pk @ groupAt g order pk
          = keyed bl_key pk (concat out') @ bufAt p' pk)"
    proof -
      have "distinct order" using Cons.prems(2) by simp
      from Cons.IH [OF q this Cons.prems(3) ag] show ?thesis .
    qed
    have batches: "goodBatch bl_key bl_batchSize b" if "b \<in> set full" for b
    proof (rule goodBatchI)
      have "set b \<subseteq> set (concat full @ rest)" using that by auto
      then show "\<forall>r \<in> set b. bl_key r = k" using homog by blast
      show "b \<noteq> []" "length b \<le> bl_batchSize" using full that by auto
    qed
    have "bufAt p pk @ groupAt g (k # order) pk
        = keyed bl_key pk (concat out) @ bufAt p' pk" for pk
    proof (cases "pk = k")
      case True
      have "keyed bl_key k (concat full) = concat full"
        using homog keyed_all [of "concat full" bl_key k k] by simp
      moreover have "bufAt ?q k @ groupAt g order k = keyed bl_key k (concat out') @ bufAt p' k"
        using IH by blast
      moreover have "k \<notin> set order" using Cons.prems(2) by simp
      ultimately show ?thesis using full Some True by (simp add: out)
    next
      case False
      have "keyed bl_key pk (concat full) = []"
        using homog False keyed_all [of "concat full" bl_key k pk] by simp
      moreover have "bufAt ?q pk @ groupAt g order pk = keyed bl_key pk (concat out') @ bufAt p' pk"
        using IH by blast
      ultimately show ?thesis using False by (simp add: out)
    qed
    then show ?thesis using IH batches by (auto simp: out)
  qed
qed simp

lemma bl_stale_take:
  "bl_flushStalePartitions order now p
   = takeWhere (\<lambda>buf. Sub now (pb_lastWrite buf) > bl_partitionAge) order p"
  by (induction order arbitrary: p) (auto simp: takePartitionLocked_def consOption_def split: option.splits)

lemma bl_all_take: "bl_flushAll order p = takeWhere (\<lambda>_. True) order p"
  by (induction order arbitrary: p) (auto simp: takePartitionLocked_def consOption_def split: option.splits)

section \<open>The writer as an instance of the interface\<close>

text \<open>The input of a call: the clock, the order in which Go walks \<^verbatim>\<open>byPartition\<close>, the slice.\<close>

definition bl_ops :: "(gotime \<times> int list \<times> backlink_record list, backlink_record, string option list) writer_ops" where
  "bl_ops = \<lparr>op_items = (\<lambda>(now, order, bls). bls),
     op_valid = (\<lambda>(now, order, bls). distinct order \<and> set order = bl_key ` set bls),
     op_write = (\<lambda>(now, order, bls). bl_Write now order bls),
     op_stale = bl_flushStalePartitions, op_all = bl_flushAll,
     op_insert = (\<lambda>answers. snd (bl_insertRecords answers)), op_sem = 8\<rparr>"

lemma groupAt_group:
  assumes "set order = bl_key ` set bls"
  shows "groupAt (bl_group bls (\<lambda>_. None)) order pk = keyed bl_key pk bls"
proof -
  have "keyed bl_key pk bls = [] \<longleftrightarrow> pk \<notin> set order"
    unfolding assms keyed_def filter_empty_conv by blast
  then show ?thesis by (auto simp: groupAt_def bl_group_keyed)
qed

lemma bl_write_moves:
  assumes "goodParts bl_key bl_batchSize p" "op_valid bl_ops x" "op_write bl_ops x p = (p', out)"
  shows "movesTo bl_key bl_batchSize (op_items bl_ops x) p p' out"
proof -
  obtain now order bls where x: "x = (now, order, bls)" by (cases x)
  then have order: "distinct order" "set order = bl_key ` set bls"
    and w: "bl_Write now order bls p = (p', out)"
    using assms(2,3) by (auto simp: bl_ops_def)
  have items: "op_items bl_ops x = bls" by (simp add: x bl_ops_def)
  show ?thesis
  proof (cases "bls = []")
    case True
    with w assms(1) show ?thesis by (simp add: items bl_Write_def movesTo_def)
  next
    case False
    with w have w': "bl_addGroups now order (bl_group bls (\<lambda>_. None)) p = (p', out)"
      by (simp add: bl_Write_def)
    have homog: "\<forall>r \<in> set rs. bl_key r = pk" if "bl_group bls (\<lambda>_. None) pk = Some rs" for pk rs
      using that by (auto simp: bl_group_keyed keyed_def split: if_splits)
    show ?thesis
      using bl_addGroups_moves [OF assms(1) order(1) homog w'] groupAt_group [OF order(2)]
      by (simp add: movesTo_def items)
  qed
qed

interpretation bl: partition_writer bl_ops bl_key bl_batchSize
proof unfold_locales
  fix p :: "backlink_record partitions" and order now p' out pk
  assume good: "goodParts bl_key bl_batchSize p"
  show "op_stale bl_ops order now p = (p', out) \<Longrightarrow> movesTo bl_key bl_batchSize [] p p' out"
    using takeWhere_moves [OF good] by (simp add: bl_ops_def bl_stale_take)
  show "op_all bl_ops order p = (p', out) \<Longrightarrow> movesTo bl_key bl_batchSize [] p p' out"
    using takeWhere_moves [OF good] by (simp add: bl_ops_def bl_all_take)
  have "bufAt p k \<noteq> [] \<Longrightarrow> k \<in> dom p" for k by (auto simp: bufAt_def split: option.splits)
  then show "set order = dom p \<Longrightarrow> op_all bl_ops order p = (p', out) \<Longrightarrow> bufAt p' pk = []"
    using takeWhere_empties [of order p p' out pk] by (auto simp: bl_ops_def bl_all_take)
qed (simp_all add: bl_write_moves)

section \<open>Retries\<close>

lemma bl_delay_pos: "0 < a \<Longrightarrow> a < 12 \<Longrightarrow> 0 \<le> bl_delay a"
proof -
  assume "0 < a" "a < 12"
  then have "a \<in> {1, 2, 3, 4, 5, 6, 7, 8, 9, 10, 11}" by simp presburger
  then show ?thesis
    by (elim insertE emptyE)
       (simp_all add: bl_delay_def Let_def wrap64_def Millisecond_def Second_def)
qed

text \<open>Apart from the waits for merges, the loop is the bounded retry of theory Partitions.\<close>

fun sleeps :: "bl_event list \<Rightarrow> int list" where
  "sleeps [] = []"
| "sleeps (Slept d # es) = d # sleeps es"
| "sleeps (WaitedForMerges # es) = sleeps es"

lemma sleeps_append [simp]: "sleeps (xs @ ys) = sleeps xs @ sleeps ys"
  by (induction xs rule: sleeps.induct) simp_all

lemma bl_attempts_retry:
  "retryLoop 12 bl_delay a (map (\<lambda>e. e = None) answers) =
     (sleeps (fst (bl_attempts a answers)), snd (bl_attempts a answers))"
proof (induction answers arbitrary: a)
  case Nil
  show ?case by (subst (1 2) bl_attempts.simps) simp
next
  case (Cons e answers)
  show ?case
    using Cons.IH [of "Suc a"] by (subst (1 2) bl_attempts.simps) (auto simp: Let_def split: prod.splits)
qed

section \<open>Properties\<close>

text \<open>C21. The backlink writer keeps every partition in order and loses nothing on the way to the
  database, whatever order Go walks its maps in; batches belong to one partition and have between 1 and
  10000 rows, so the insert never indexes an empty batch; no buffer reaches 10000.\<close>

theorem backlink_partitions_fifo:
  assumes "(writer_step bl_ops)\<^sup>*\<^sup>* initialWriter s"
  shows "keyed bl_key pk (ws_admitted s) = keyed bl_key pk (concat (ws_taken s)) @ bufAt (ws_parts s) pk
    \<and> length (bufAt (ws_parts s) pk) < bl_batchSize
    \<and> (\<forall>b \<in> set (ws_running s). goodBatch bl_key bl_batchSize b
         \<and> bl_doInsertRecords prepared appended sent b written \<noteq> IndexOutOfRange)
    \<and> length (ws_running s) \<le> 8"
proof -
  have "bl_doInsertRecords prepared appended sent b written \<noteq> IndexOutOfRange"
    if "goodBatch bl_key bl_batchSize b" for b
    using that by (simp add: goodBatch_def bl_doInsertRecords_def)
  then show ?thesis
    using bl.partition_fifo [OF assms] bl.buffers_small [OF assms] bl.batches_good [OF assms]
      bl.reachable [OF assms] by (simp add: writer_inv_def bl_ops_def)
qed

definition demoBacklink :: backlink_record where
  "demoBacklink = \<lparr>blr_Ref = ''at://a'', blr_RefType = ''uri'', blr_Collection = ''c'', blr_Path = ''p'',
     blr_SourceURI = ''s'', blr_SourceDID = ''d'', blr_CreatedAt = \<lparr>tsec = 1700000000, tnsec = 0, toff = 0\<rparr>\<rparr>"

definition demoLinkParts :: "backlink_record partitions" where
  "demoLinkParts = fst (bl_Write \<lparr>tsec = 1700000002, tnsec = 0, toff = 0\<rparr> [202311] [demoBacklink] (\<lambda>_. None))"

definition demoLinkWriter :: "backlink_record writer_sys" where
  "demoLinkWriter = initialWriter\<lparr>ws_parts := demoLinkParts, ws_admitted := [demoBacklink]\<rparr>"

lemma demoBacklink_key: "backlinkPartitionKey (blr_CreatedAt demoBacklink) = 202311"
  by code_simp

lemma demoLinkWriter_reachable: "(writer_step bl_ops)\<^sup>*\<^sup>* initialWriter demoLinkWriter"
proof -
  let ?x = "(\<lparr>tsec = 1700000002, tnsec = 0, toff = 0\<rparr>, [202311], [demoBacklink])"
  have "bl_takeFull [demoBacklink] = ([], [demoBacklink])" by (simp add: bl_takeFull.simps)
  then have "op_write bl_ops ?x (ws_parts initialWriter) = (demoLinkParts, [])"
    by (simp add: bl_ops_def demoLinkParts_def bl_Write_def initialWriter_def demoBacklink_key bufAt_def Let_def)
  then have "writer_step bl_ops initialWriter (initialWriter\<lparr>ws_parts := demoLinkParts,
      ws_calling := ws_calling initialWriter @ [],
      ws_admitted := ws_admitted initialWriter @ op_items bl_ops ?x,
      ws_taken := ws_taken initialWriter @ []\<rparr>)"
    by (rule WWrite [rotated 2]) (simp_all add: initialWriter_def bl_ops_def demoBacklink_key)
  then show ?thesis by (simp add: demoLinkWriter_def initialWriter_def bl_ops_def)
qed

theorem backlink_partitions_fifo_witness:
  "bufAt (ws_parts demoLinkWriter) 202311 = [demoBacklink]"
  using backlink_partitions_fifo [OF demoLinkWriter_reachable, of 202311 True "[]" True 0]
  by (simp add: demoLinkWriter_def initialWriter_def keyed_def demoBacklink_key)

text \<open>When \<^verbatim>\<open>Close\<close> of the backlink writer returns, every backlink it admitted has been handed
  to an insert that ended, exactly once.\<close>

theorem backlink_close_complete:
  assumes "(writer_step bl_ops)\<^sup>*\<^sup>* initialWriter s" "writerClosed s"
  shows "mset (concat (map fst (ws_settled s))) = mset (ws_admitted s) \<and> writerHeld s = {#}"
  using bl.closed_complete [OF assms] writer_closed_empty [OF bl.reachable [OF assms(1)] assms(2)] by blast

definition demoLinkClosed :: "backlink_record writer_sys" where
  "demoLinkClosed = initialWriter\<lparr>ws_parts := fst (bl_flushAll [202311] demoLinkParts),
     ws_admitted := [demoBacklink], ws_taken := [[demoBacklink]], ws_done := True,
     ws_loop := Stopped, ws_settled := [([demoBacklink], True)]\<rparr>"

lemma demoLinkClosed_reachable: "(writer_step bl_ops)\<^sup>*\<^sup>* initialWriter demoLinkClosed"
proof -
  have p: "demoLinkParts = [202311 \<mapsto> \<lparr>pb_records = [demoBacklink],
      pb_lastWrite = \<lparr>tsec = 1700000002, tnsec = 0, toff = 0\<rparr>\<rparr>]"
    by (simp add: demoLinkParts_def bl_Write_def demoBacklink_key bufAt_def Let_def bl_takeFull.simps)
  have "(writer_step bl_ops)\<^sup>*\<^sup>* demoLinkWriter demoLinkClosed"
    unfolding demoLinkWriter_def demoLinkClosed_def
  proof (rule close_run [of "[202311]"])
    show "op_all bl_ops [202311] demoLinkParts = (fst (bl_flushAll [202311] demoLinkParts), [[demoBacklink]])"
      by (simp add: bl_ops_def p takePartitionLocked_def consOption_def)
    show "op_insert bl_ops [None] = Some True"
      by (simp add: bl_ops_def bl_insertRecords_def bl_attempts.simps)
  qed (simp_all add: p bl_ops_def)
  with demoLinkWriter_reachable show ?thesis by (rule rtranclp_trans)
qed

theorem backlink_close_complete_witness:
  "mset (concat (map fst (ws_settled demoLinkClosed))) = mset (ws_admitted demoLinkClosed)
   \<and> writerHeld demoLinkClosed = {#}"
  by (rule backlink_close_complete [OF demoLinkClosed_reachable])
     (simp add: writerClosed_def demoLinkClosed_def initialWriter_def)

text \<open>A backlink insert is tried at most twelve times, and it is reported lost exactly if the first
  twelve attempts all fail, whichever of them were refused for too many parts.\<close>

theorem backlink_insert_retries:
  "snd (bl_insertRecords answers) =
     (if None \<in> set (take 12 answers) then Some True
      else if 12 \<le> length answers then Some False else None)"
proof -
  have "True \<in> set (take 12 (map (\<lambda>e. e = None) answers)) \<longleftrightarrow> None \<in> set (take 12 answers)"
    by (auto simp: take_map)
  then show ?thesis
    using bl_attempts_retry [of 0 answers] retryLoop_result [of 12 bl_delay 0 "map (\<lambda>e. e = None) answers"]
    by (simp add: bl_insertRecords_def)
qed

end
