(* ===== verification/DeleteQueue.thy ===== *)
theory DeleteQueue
  imports Partitions
begin

text \<open>
  The ClickHouse delete queue (\<^verbatim>\<open>ingest/deletes.go\<close>): deletions are buffered, flushed to the
  table \<^verbatim>\<open>pending_deletes\<close> by goroutines with bounded retries, and applied by a periodic
  cleanup job that registers a deletion on a table and then one of the entries it used. The first part interprets the
  interface \<open>bounded_sink\<close>; the second has the tables with the mutations registered on them,
  the cleanup loop among the actions of the cluster and of others, and states what it removes, what it
  spares and when it loses a deletion.
\<close>

section \<open>The buffer\<close>

record pending_delete =
  pd_uri :: string
  pd_tableName :: string

abbreviation (input) dq_flushSize :: nat where "dq_flushSize \<equiv> 1000"

definition flushLocked :: "pending_delete list \<Rightarrow> pending_delete list \<times> pending_delete list list" where
  "flushLocked buf = (if buf = [] then (buf, []) else ([], [buf]))"

definition dq_append :: "pending_delete \<Rightarrow> pending_delete list \<Rightarrow> pending_delete list \<times> pending_delete list list" where
  "dq_append d buf =
     (let buf = buf @ [d] in if length buf \<ge> dq_flushSize then flushLocked buf else (buf, []))"

definition dq_QueueRecordDelete :: "string \<Rightarrow> pending_delete list \<Rightarrow> pending_delete list \<times> pending_delete list list" where
  "dq_QueueRecordDelete uri = dq_append \<lparr>pd_uri = uri, pd_tableName = ''records''\<rparr>"

definition dq_QueueBacklinkDelete :: "string \<Rightarrow> pending_delete list \<Rightarrow> pending_delete list \<times> pending_delete list list" where
  "dq_QueueBacklinkDelete uri = dq_append \<lparr>pd_uri = uri, pd_tableName = ''backlinks''\<rparr>"

definition dq_delay :: "nat \<Rightarrow> int" where
  "dq_delay attempt = wrap64 (100 * Millisecond * wrap64 (2 ^ (attempt - 1)))"

definition insertPendingDeletes :: "bool list \<Rightarrow> int list \<times> bool option" where
  "insertPendingDeletes answers = retryLoop 5 dq_delay 0 answers"

text \<open>\<^verbatim>\<open>doInsertPendingDeletes\<close>: a failed append is logged and the entry is missing from the batch.\<close>

definition doInsertPendingDeletes :: "bool \<Rightarrow> bool list \<Rightarrow> bool \<Rightarrow> pending_delete list \<Rightarrow> pending_delete list option" where
  "doInsertPendingDeletes prepared appended sent deletes =
     (if \<not> prepared then None
      else if sent then Some (map fst (filter snd (zip deletes appended))) else None)"

section \<open>Steps\<close>

record delete_sys =
  dq_buf :: "pending_delete list"
  dq_inserting :: "pending_delete list list"
  dq_done :: bool
  dq_loopExited :: bool
  dq_queued :: "pending_delete list"
  dq_settled :: "(pending_delete list \<times> bool) list"

definition initialQueue :: delete_sys where
  "initialQueue = \<lparr>dq_buf = [], dq_inserting = [], dq_done = False, dq_loopExited = False,
     dq_queued = [], dq_settled = []\<rparr>"

inductive delete_step :: "delete_sys \<Rightarrow> delete_sys \<Rightarrow> bool" where
  DRecord: "dq_QueueRecordDelete uri (dq_buf s) = (buf, out) \<Longrightarrow>
    delete_step s (s\<lparr>dq_buf := buf, dq_inserting := dq_inserting s @ out,
      dq_queued := dq_queued s @ [\<lparr>pd_uri = uri, pd_tableName = ''records''\<rparr>]\<rparr>)"
| DBacklink: "dq_QueueBacklinkDelete uri (dq_buf s) = (buf, out) \<Longrightarrow>
    delete_step s (s\<lparr>dq_buf := buf, dq_inserting := dq_inserting s @ out,
      dq_queued := dq_queued s @ [\<lparr>pd_uri = uri, pd_tableName = ''backlinks''\<rparr>]\<rparr>)"
| DTick: "\<not> dq_loopExited s \<Longrightarrow> flushLocked (dq_buf s) = (buf, out) \<Longrightarrow>
    delete_step s (s\<lparr>dq_buf := buf, dq_inserting := dq_inserting s @ out\<rparr>)"
| DClose: "\<not> dq_done s \<Longrightarrow> delete_step s (s\<lparr>dq_done := True\<rparr>)"
| DFinal: "\<not> dq_loopExited s \<Longrightarrow> dq_done s \<Longrightarrow> flushLocked (dq_buf s) = (buf, out) \<Longrightarrow>
    delete_step s (s\<lparr>dq_buf := buf, dq_inserting := dq_inserting s @ out, dq_loopExited := True\<rparr>)"
| DInserted: "dq_inserting s = xs @ b # ys \<Longrightarrow> snd (insertPendingDeletes answers) = Some ok \<Longrightarrow>
    delete_step s (s\<lparr>dq_inserting := xs @ ys, dq_settled := dq_settled s @ [(b, ok)]\<rparr>)"

inductive_cases delete_stepE: "delete_step s t"

definition dqQueued :: "delete_sys \<Rightarrow> pending_delete multiset" where
  "dqQueued s = mset (dq_queued s)"
definition dqHeld :: "delete_sys \<Rightarrow> pending_delete multiset" where
  "dqHeld s = mset (dq_buf s) + mset (concat (dq_inserting s))"
definition dqSettled :: "delete_sys \<Rightarrow> pending_delete multiset" where
  "dqSettled s = mset (concat (map fst (dq_settled s)))"

lemmas dq_views = dqQueued_def dqHeld_def dqSettled_def

definition delete_inv :: "delete_sys \<Rightarrow> bool" where
  "delete_inv s \<longleftrightarrow> dqQueued s = dqHeld s + dqSettled s \<and> length (dq_buf s) < dq_flushSize
     \<and> (\<forall>b \<in> set (dq_inserting s). b \<noteq> [] \<and> length b \<le> dq_flushSize)"

lemma dq_append_cases:
  assumes "dq_append d buf = (buf', out)" "length buf < dq_flushSize"
  shows "mset buf' + mset (concat out) = mset buf + {#d#}" "length buf' < dq_flushSize"
    "\<forall>b \<in> set out. b \<noteq> [] \<and> length b \<le> dq_flushSize"
  using assms by (auto simp: dq_append_def flushLocked_def Let_def split: if_splits)

lemma flushLocked_cases:
  assumes "flushLocked buf = (buf', out)" "length buf < dq_flushSize"
  shows "mset buf' + mset (concat out) = mset buf" "buf' = []"
    "\<forall>b \<in> set out. b \<noteq> [] \<and> length b \<le> dq_flushSize"
  using assms by (auto simp: flushLocked_def split: if_splits)

lemma delete_append_inv:
  assumes "delete_inv s" "dq_append d (dq_buf s) = (buf, out)"
  shows "delete_inv (s\<lparr>dq_buf := buf, dq_inserting := dq_inserting s @ out, dq_queued := dq_queued s @ [d]\<rparr>)"
  using assms(1) dq_append_cases [OF assms(2)]
  by (auto simp: delete_inv_def dq_views ac_simps)

lemma delete_flush_inv:
  assumes "delete_inv s" "flushLocked (dq_buf s) = (buf, out)"
  shows "delete_inv (s\<lparr>dq_buf := buf, dq_inserting := dq_inserting s @ out\<rparr>)"
    "delete_inv (s\<lparr>dq_buf := buf, dq_inserting := dq_inserting s @ out, dq_loopExited := True\<rparr>)"
  using assms(1) flushLocked_cases [OF assms(2)]
  by (auto simp: delete_inv_def dq_views ac_simps)

lemma delete_step_inv: "delete_inv s \<Longrightarrow> delete_step s t \<Longrightarrow> delete_inv t"
proof (elim delete_stepE)
  assume "delete_inv s" "t = s\<lparr>dq_done := True\<rparr>"
  then show "delete_inv t" by (simp add: delete_inv_def dq_views)
next
  fix xs b ys answers ok
  assume "delete_inv s" "dq_inserting s = xs @ b # ys"
    "t = s\<lparr>dq_inserting := xs @ ys, dq_settled := dq_settled s @ [(b, ok)]\<rparr>"
  then show "delete_inv t" by (auto simp: delete_inv_def dq_views)
qed (simp_all add: delete_append_inv delete_flush_inv dq_QueueRecordDelete_def dq_QueueBacklinkDelete_def)

interpretation dq: bounded_sink delete_step delete_inv dqQueued dqHeld dqSettled
    "\<lambda>s. length (dq_buf s)" "dq_flushSize"
proof unfold_locales
  fix s t assume "delete_step s t"
  then show "dqQueued s \<subseteq># dqQueued t" "dqSettled s \<subseteq># dqSettled t"
    by (elim delete_stepE; simp add: dq_views)+
next
  fix s t assume "delete_inv s" "delete_step s t"
  then show "delete_inv t" by (rule delete_step_inv)
qed (simp_all add: delete_inv_def)

lemma initial_delete_inv: "delete_inv initialQueue"
  by (simp add: delete_inv_def initialQueue_def dq_views)

text \<open>\<^verbatim>\<open>Close\<close> waits for the goroutines or five seconds, and reports no error in either case.\<close>

definition dq_Close :: "bool \<Rightarrow> string option" where
  "dq_Close drained = None"

section \<open>Cleanup\<close>

text \<open>
  The tables, as the statements of the cleanup see them: the rows of each table with their columns, and
  \<^verbatim>\<open>pending_deletes\<close> with the second each entry was created in (the column is a \<^verbatim>\<open>DateTime\<close>,
  filled by \<^verbatim>\<open>now()\<close>). Rows and entries are numbered by the insert that wrote them.

  \<^verbatim>\<open>ALTER TABLE ... DELETE\<close> is a mutation. The statement returns when the mutation is registered
  (\<^verbatim>\<open>mutations_sync\<close> is 0 unless it is set, and no file of the program sets it); the cluster applies
  it later, to what had been inserted before it was registered, and evaluates its subquery then. The
  mutations of one table are applied in the order of their registration, those of different tables in
  any order.
\<close>

record pending_row =
  pr_delete :: pending_delete
  pr_created :: int
  pr_block :: nat

record row =
  row_col :: "string \<Rightarrow> string"
  row_block :: nat

datatype mutation =
    DeleteIn string string int nat
  | ClearPending string int nat

record tables =
  tb_rows :: "string \<Rightarrow> row list"
  tb_pending :: "pending_row list"
  tb_block :: nat
  tb_mutations :: "mutation list"

definition selects :: "string \<Rightarrow> int \<Rightarrow> pending_row \<Rightarrow> bool" where
  "selects tableName cutoff r \<longleftrightarrow> pd_tableName (pr_delete r) = tableName \<and> pr_created r \<le> cutoff"

definition sqlCount :: "string \<Rightarrow> int \<Rightarrow> tables \<Rightarrow> nat" where
  "sqlCount tableName cutoff db = length (filter (selects tableName cutoff) (tb_pending db))"

text \<open>The two statements register a mutation each.\<close>

definition sqlMutate :: "string \<Rightarrow> string \<Rightarrow> int \<Rightarrow> tables \<Rightarrow> tables" where
  "sqlMutate tableName uriColumn cutoff db =
     db\<lparr>tb_mutations := tb_mutations db @ [DeleteIn tableName uriColumn cutoff (tb_block db)]\<rparr>"

definition sqlClear :: "string \<Rightarrow> int \<Rightarrow> tables \<Rightarrow> tables" where
  "sqlClear tableName cutoff db =
     db\<lparr>tb_mutations := tb_mutations db @ [ClearPending tableName cutoff (tb_block db)]\<rparr>"

text \<open>What the statements mean when they are applied.\<close>

definition pendingUris :: "string \<Rightarrow> int \<Rightarrow> tables \<Rightarrow> string set" where
  "pendingUris tableName cutoff db =
     set (map (\<lambda>r. pd_uri (pr_delete r)) (filter (selects tableName cutoff) (tb_pending db)))"

fun applyMutation :: "mutation \<Rightarrow> tables \<Rightarrow> tables" where
  "applyMutation (DeleteIn tableName uriColumn cutoff before) db =
     db\<lparr>tb_rows := (tb_rows db)(tableName :=
       filter (\<lambda>x. \<not> (row_block x < before \<and> row_col x uriColumn \<in> pendingUris tableName cutoff db))
         (tb_rows db tableName))\<rparr>"
| "applyMutation (ClearPending tableName cutoff before) db =
     db\<lparr>tb_pending := filter (\<lambda>r. \<not> (pr_block r < before \<and> selects tableName cutoff r)) (tb_pending db)\<rparr>"

fun mutates :: "mutation \<Rightarrow> string" where
  "mutates (DeleteIn tableName uriColumn cutoff before) = tableName"
| "mutates (ClearPending tableName cutoff before) = ''pending_deletes''"

text \<open>
  What happens to the tables besides the statements: the cluster applies the mutation at a place of the
  queue, if no earlier one of the same table is waiting, or others act.
\<close>

datatype table_action =
    ClusterApplies nat
  | OthersAct "tables \<Rightarrow> tables"

fun runAction :: "table_action \<Rightarrow> tables \<Rightarrow> tables" where
  "runAction (ClusterApplies i) db =
     (let ms = tb_mutations db in
      if i < length ms \<and> (\<forall>j < i. mutates (ms ! j) \<noteq> mutates (ms ! i))
      then (applyMutation (ms ! i) db)\<lparr>tb_mutations := take i ms @ drop (Suc i) ms\<rparr>
      else db)"
| "runAction (OthersAct f) db = f db"

definition runActions :: "table_action list \<Rightarrow> tables \<Rightarrow> tables" where
  "runActions as db = fold runAction as db"

text \<open>
  One run for a table. \<open>cr_cutoff\<close> is \<^verbatim>\<open>now()\<close> in seconds, or \<^const>\<open>None\<close> if that query fails;
  \<open>cr_counted\<close> is whether the count succeeds; then the results of the two \<^verbatim>\<open>Exec\<close> calls: one that
  returns an error (a lost connection, the deadline of ten minutes) may have been registered or not. The
  lists say what happens to the tables before each of the four statements.
\<close>

datatype exec_result = ExecOk | ExecFailed bool

fun registers :: "exec_result \<Rightarrow> bool" where
  "registers ExecOk = True"
| "registers (ExecFailed reached) = reached"

record cleanup_run =
  cr_cutoff :: "int option"
  cr_counted :: bool
  cr_mutated :: exec_result
  cr_cleared :: exec_result
  cr_beforeCutoff :: "table_action list"
  cr_beforeCount :: "table_action list"
  cr_beforeDelete :: "table_action list"
  cr_beforeClear :: "table_action list"

definition processDeletes :: "cleanup_run \<Rightarrow> string \<Rightarrow> string \<Rightarrow> tables \<Rightarrow> nat \<times> tables" where
  "processDeletes run tableName uriColumn db =
     (let db = runActions (cr_beforeCutoff run) db in
      case cr_cutoff run of
        None \<Rightarrow> (0, db)
      | Some cutoff \<Rightarrow>
          (let db = runActions (cr_beforeCount run) db in
           if \<not> cr_counted run then (0, db)
           else
             (let count = sqlCount tableName cutoff db in
              if count = 0 then (0, db)
              else
                (let db = runActions (cr_beforeDelete run) db;
                     db = (if registers (cr_mutated run) then sqlMutate tableName uriColumn cutoff db else db)
                 in if cr_mutated run \<noteq> ExecOk then (0, db)
                    else
                      (let db = runActions (cr_beforeClear run) db;
                           db = (if registers (cr_cleared run) then sqlClear tableName cutoff db else db)
                       in (count, db))))))"

definition runCleanup :: "cleanup_run \<Rightarrow> cleanup_run \<Rightarrow> tables \<Rightarrow> (nat \<times> nat) \<times> tables" where
  "runCleanup run1 run2 db =
     (let (records, db) = processDeletes run1 ''records'' ''uri'' db;
          (backlinks, db) = processDeletes run2 ''backlinks'' ''source_uri'' db
      in ((records, backlinks), db))"

text \<open>
  What \<^verbatim>\<open>cleanupLoop\<close> selects: the end of the first minute, a tick of the twenty-minute ticker (which
  only exists after that minute) or the closed \<^verbatim>\<open>done\<close> channel; \<open>Meanwhile\<close> is what happens to the
  tables in between. The result is the deletions processed by each cleanup, the tables, and whether the
  loop returned.
\<close>

datatype cleanup_event =
    StabilizeOver
  | CleanupTick cleanup_run cleanup_run
  | QueueDone
  | Meanwhile table_action

fun cleanupLoop :: "bool \<Rightarrow> cleanup_event list \<Rightarrow> tables \<Rightarrow> (nat \<times> nat) list \<times> tables \<times> bool" where
  "cleanupLoop ticking [] db = ([], db, False)"
| "cleanupLoop ticking (QueueDone # es) db = ([], db, True)"
| "cleanupLoop ticking (Meanwhile a # es) db = cleanupLoop ticking es (runAction a db)"
| "cleanupLoop ticking (StabilizeOver # es) db = cleanupLoop True es db"
| "cleanupLoop ticking (CleanupTick run1 run2 # es) db =
     (if ticking
      then (let (n, db) = runCleanup run1 run2 db; (ns, db, returned) = cleanupLoop True es db
            in (n # ns, db, returned))
      else cleanupLoop ticking es db)"

section \<open>Invariants of the cleanup\<close>

text \<open>Everything that the others do in some actions, runs and events.\<close>

definition othersIn :: "table_action list \<Rightarrow> (tables \<Rightarrow> tables) set" where
  "othersIn as = {f. OthersAct f \<in> set as}"

definition othersInRun :: "cleanup_run \<Rightarrow> (tables \<Rightarrow> tables) set" where
  "othersInRun run = othersIn (cr_beforeCutoff run) \<union> othersIn (cr_beforeCount run)
     \<union> othersIn (cr_beforeDelete run) \<union> othersIn (cr_beforeClear run)"

fun othersInEvent :: "cleanup_event \<Rightarrow> (tables \<Rightarrow> tables) set" where
  "othersInEvent (CleanupTick run1 run2) = othersInRun run1 \<union> othersInRun run2"
| "othersInEvent (Meanwhile a) = othersIn [a]"
| "othersInEvent _ = {}"

definition othersInEvents :: "cleanup_event list \<Rightarrow> (tables \<Rightarrow> tables) set" where
  "othersInEvents es = (\<Union>e \<in> set es. othersInEvent e)"

text \<open>
  A relation between two states of the tables that the others and the mutations keep is kept by a
  cleanup, which then also returns the same counts. With a relation that says the same of both sides it
  is an invariant.
\<close>

locale table_relation =
  fixes R :: "tables \<Rightarrow> tables \<Rightarrow> bool"
  assumes rel_apply: "R db db2 \<Longrightarrow> R (runAction (ClusterApplies i) db) (runAction (ClusterApplies i) db2)"
    and rel_count: "R db db2 \<Longrightarrow> sqlCount tab cutoff db2 = sqlCount tab cutoff db"
    and rel_mutate: "R db db2 \<Longrightarrow> (tab, col) \<in> {(''records'', ''uri''), (''backlinks'', ''source_uri'')} \<Longrightarrow>
      R (sqlMutate tab col cutoff db) (sqlMutate tab col cutoff db2)"
    and rel_clear: "R db db2 \<Longrightarrow> R (sqlClear tab cutoff db) (sqlClear tab cutoff db2)"
begin

definition kept :: "(tables \<Rightarrow> tables) set \<Rightarrow> bool" where
  "kept fs \<longleftrightarrow> (\<forall>f \<in> fs. \<forall>db db2. R db db2 \<longrightarrow> R (f db) (f db2))"

lemma kept_Un [simp]: "kept (A \<union> B) \<longleftrightarrow> kept A \<and> kept B"
  by (auto simp: kept_def)

lemma rel_acts: "R db db2 \<Longrightarrow> kept (othersIn as) \<Longrightarrow> R (runActions as db) (runActions as db2)"
proof (induction as arbitrary: db db2)
  case (Cons a as)
  have "R (runAction a db) (runAction a db2)"
  proof (cases a)
    case (ClusterApplies i)
    with rel_apply [OF Cons.prems(1), of i] show ?thesis by (simp del: runAction.simps)
  next
    case (OthersAct f)
    with Cons.prems show ?thesis by (auto simp: kept_def othersIn_def)
  qed
  moreover have "kept (othersIn as)" using Cons.prems(2) by (auto simp: kept_def othersIn_def)
  ultimately show ?case using Cons.IH by (simp add: runActions_def)
qed (simp add: runActions_def)

lemma rel_processDeletes:
  assumes "R db db2" "kept (othersInRun run)"
    and "(tab, col) \<in> {(''records'', ''uri''), (''backlinks'', ''source_uri'')}"
  shows "fst (processDeletes run tab col db2) = fst (processDeletes run tab col db)
    \<and> R (snd (processDeletes run tab col db)) (snd (processDeletes run tab col db2))"
proof -
  from assms(2) have k: "kept (othersIn (cr_beforeCutoff run))" "kept (othersIn (cr_beforeCount run))"
    "kept (othersIn (cr_beforeDelete run))" "kept (othersIn (cr_beforeClear run))"
    by (simp_all add: othersInRun_def)
  note mutate = rel_mutate [OF _ assms(3)]
  show ?thesis
    using assms(1)
    by (auto simp: processDeletes_def Let_def rel_count [OF rel_acts [OF rel_acts [OF _ k(1)] k(2)]]
        intro!: mutate rel_clear rel_acts k split: option.splits)
qed

lemma rel_runCleanup:
  assumes "R db db2" "kept (othersInRun run1)" "kept (othersInRun run2)"
  shows "fst (runCleanup run1 run2 db2) = fst (runCleanup run1 run2 db)
    \<and> R (snd (runCleanup run1 run2 db)) (snd (runCleanup run1 run2 db2))"
proof -
  have "fst (processDeletes run1 ''records'' ''uri'' db2) = fst (processDeletes run1 ''records'' ''uri'' db)"
    and R: "R (snd (processDeletes run1 ''records'' ''uri'' db)) (snd (processDeletes run1 ''records'' ''uri'' db2))"
    using rel_processDeletes [OF assms(1,2)] by auto
  with rel_processDeletes [OF R assms(3)] show ?thesis
    by (auto simp: runCleanup_def Let_def split_beta)
qed

lemma rel_cleanupLoop:
  assumes "R db db2" "kept (othersInEvents es)"
  shows "fst (cleanupLoop ticking es db2) = fst (cleanupLoop ticking es db)
    \<and> R (fst (snd (cleanupLoop ticking es db))) (fst (snd (cleanupLoop ticking es db2)))
    \<and> snd (snd (cleanupLoop ticking es db2)) = snd (snd (cleanupLoop ticking es db))"
  using assms
proof (induction es arbitrary: ticking db db2)
  case (Cons e es)
  have k: "kept (othersInEvent e)" "kept (othersInEvents es)"
    using Cons.prems(2) by (auto simp: othersInEvents_def kept_def)
  show ?case
  proof (cases e)
    case (Meanwhile a)
    with k have "R (runAction a db) (runAction a db2)" using rel_acts [OF Cons.prems(1), of "[a]"] by (simp add: runActions_def)
    from Cons.IH [OF this k(2)] Meanwhile show ?thesis by simp
  next
    case (CleanupTick run1 run2)
    with k(1) have "kept (othersInRun run1)" "kept (othersInRun run2)" by simp_all
    note C = rel_runCleanup [OF Cons.prems(1) this]
    then have "R (snd (runCleanup run1 run2 db)) (snd (runCleanup run1 run2 db2))" by blast
    from Cons.IH [OF this k(2)] Cons.IH [OF Cons.prems(1) k(2)] CleanupTick C show ?thesis
      by (simp add: Let_def split_beta)
  qed (use Cons.IH [OF Cons.prems(1) k(2)] Cons.prems(1) in simp_all)
qed simp

end

text \<open>The column of a table that holds the URIs the cleanup looks for, and the mutations that use it.\<close>

definition uriColumn :: "string \<Rightarrow> string" where
  "uriColumn tableName = (if tableName = ''records'' then ''uri'' else ''source_uri'')"

fun onColumn :: "mutation \<Rightarrow> bool" where
  "onColumn (DeleteIn tableName col cutoff before) \<longleftrightarrow> col = uriColumn tableName"
| "onColumn (ClearPending tableName cutoff before) \<longleftrightarrow> True"

definition columnsOk :: "tables \<Rightarrow> bool" where
  "columnsOk db \<longleftrightarrow> list_all onColumn (tb_mutations db)"

lemma columnsOk_submit:
  "columnsOk db \<Longrightarrow> (tab, col) \<in> {(''records'', ''uri''), (''backlinks'', ''source_uri'')} \<Longrightarrow>
   columnsOk (sqlMutate tab col cutoff db)"
  "columnsOk db \<Longrightarrow> columnsOk (sqlClear tab cutoff db)"
  by (auto simp: columnsOk_def sqlMutate_def sqlClear_def uriColumn_def)

lemma applyMutation_queue [simp]: "tb_mutations (applyMutation m db) = tb_mutations db"
  by (cases m) simp_all

lemma columnsOk_apply: "columnsOk db \<Longrightarrow> columnsOk (runAction (ClusterApplies i) db)"
  by (auto simp: columnsOk_def Let_def list_all_iff dest: in_set_takeD in_set_dropD)

text \<open>A row that nobody asked to delete.\<close>

definition unqueued :: "row \<Rightarrow> string \<Rightarrow> tables \<Rightarrow> bool" where
  "unqueued x tab db \<longleftrightarrow> x \<in> set (tb_rows db tab) \<and> columnsOk db
     \<and> (\<forall>r \<in> set (tb_pending db). pd_tableName (pr_delete r) = tab
          \<longrightarrow> pd_uri (pr_delete r) \<noteq> row_col x (uriColumn tab))"

lemma unqueued_applyMutation:
  "unqueued x tab db \<Longrightarrow> onColumn m \<Longrightarrow> unqueued x tab (applyMutation m db)"
  by (cases m) (auto simp: unqueued_def columnsOk_def pendingUris_def selects_def)

lemma unqueued_apply: "unqueued x tab db \<Longrightarrow> unqueued x tab (runAction (ClusterApplies i) db)"
proof -
  assume u: "unqueued x tab db"
  then have c: "columnsOk (runAction (ClusterApplies i) db)" by (simp add: columnsOk_apply unqueued_def del: runAction.simps)
  show ?thesis
  proof (cases "i < length (tb_mutations db)
      \<and> (\<forall>j < i. mutates (tb_mutations db ! j) \<noteq> mutates (tb_mutations db ! i))")
    case True
    then have "onColumn (tb_mutations db ! i)" using u by (simp add: unqueued_def columnsOk_def list_all_length)
    from unqueued_applyMutation [OF u this] c True show ?thesis by (simp add: unqueued_def Let_def)
  next
    case False
    then have "runAction (ClusterApplies i) db = db" by (auto simp: Let_def)
    then show ?thesis using u by simp
  qed
qed

interpretation spared: table_relation "\<lambda>db db2. db2 = db \<and> unqueued x tab db" for x tab
proof unfold_locales
  fix db db2 tab' col cutoff
  assume "db2 = db \<and> unqueued x tab db"
    and "(tab', col) \<in> {(''records'', ''uri''), (''backlinks'', ''source_uri'')}"
  then show "sqlMutate tab' col cutoff db2 = sqlMutate tab' col cutoff db \<and> unqueued x tab (sqlMutate tab' col cutoff db)"
    using columnsOk_submit(1) [of db tab' col cutoff] by (auto simp: unqueued_def) (simp_all add: sqlMutate_def)
next
  fix db db2 tab' cutoff
  assume "db2 = db \<and> unqueued x tab db"
  then show "sqlClear tab' cutoff db2 = sqlClear tab' cutoff db \<and> unqueued x tab (sqlClear tab' cutoff db)"
    using columnsOk_submit(2) [of db tab' cutoff] by (auto simp: unqueued_def) (simp_all add: sqlClear_def)
qed (use unqueued_apply in blast)+

lemma cleanup_spares:
  assumes "unqueued x tab db"
    and "\<forall>f \<in> othersInEvents es. \<forall>d. unqueued x tab d \<longrightarrow> unqueued x tab (f d)"
  shows "unqueued x tab (fst (snd (cleanupLoop ticking es db)))"
  using spared.rel_cleanupLoop [of db db x tab es ticking] assms by (simp add: spared.kept_def)

text \<open>The same tables with other values in the columns that hold no URI.\<close>

definition keepsUris :: "(row \<Rightarrow> string \<Rightarrow> string) \<Rightarrow> bool" where
  "keepsUris g \<longleftrightarrow> (\<forall>x. g x ''uri'' = row_col x ''uri'' \<and> g x ''source_uri'' = row_col x ''source_uri'')"

definition rewriteRows :: "(row \<Rightarrow> string \<Rightarrow> string) \<Rightarrow> tables \<Rightarrow> tables" where
  "rewriteRows g db = db\<lparr>tb_rows := (\<lambda>tab. map (\<lambda>x. x\<lparr>row_col := g x\<rparr>) (tb_rows db tab))\<rparr>"

lemma rewriteRows_fields [simp]:
  "tb_pending (rewriteRows g db) = tb_pending db" "tb_mutations (rewriteRows g db) = tb_mutations db"
  "tb_block (rewriteRows g db) = tb_block db" "pendingUris tab cutoff (rewriteRows g db) = pendingUris tab cutoff db"
  by (simp_all add: rewriteRows_def pendingUris_def)

lemma rewriteRows_applyMutation:
  assumes "keepsUris g" "onColumn m"
  shows "applyMutation m (rewriteRows g db) = rewriteRows g (applyMutation m db)"
proof (cases m)
  case (DeleteIn tab col cutoff before)
  with assms have "g x col = row_col x col" for x by (auto simp: keepsUris_def uriColumn_def)
  then show ?thesis
    unfolding DeleteIn applyMutation.simps rewriteRows_fields
    by (auto simp: rewriteRows_def filter_map o_def fun_eq_iff)
qed (simp add: rewriteRows_def)

lemma rewriteRows_apply:
  assumes "keepsUris g" "columnsOk db"
  shows "runAction (ClusterApplies i) (rewriteRows g db) = rewriteRows g (runAction (ClusterApplies i) db)"
proof (cases "i < length (tb_mutations db)
      \<and> (\<forall>j < i. mutates (tb_mutations db ! j) \<noteq> mutates (tb_mutations db ! i))")
  case True
  then have "onColumn (tb_mutations db ! i)" using assms(2) by (simp add: columnsOk_def list_all_length)
  note A = rewriteRows_applyMutation [OF assms(1) this, of db]
  have "rewriteRows g (d\<lparr>tb_mutations := ms\<rparr>) = (rewriteRows g d)\<lparr>tb_mutations := ms\<rparr>" for d ms
    by (simp add: rewriteRows_def)
  with True A show ?thesis by (simp add: Let_def)
qed (auto simp: Let_def)

interpretation rewritten: table_relation
  "\<lambda>db db2. db2 = rewriteRows g db \<and> keepsUris g \<and> columnsOk db" for g
proof unfold_locales
  fix db db2 tab col cutoff
  assume "db2 = rewriteRows g db \<and> keepsUris g \<and> columnsOk db"
    and "(tab, col) \<in> {(''records'', ''uri''), (''backlinks'', ''source_uri'')}"
  then show "sqlMutate tab col cutoff db2 = rewriteRows g (sqlMutate tab col cutoff db)
      \<and> keepsUris g \<and> columnsOk (sqlMutate tab col cutoff db)"
    using columnsOk_submit(1) by (auto simp: sqlMutate_def rewriteRows_def)
next
  fix db db2 tab cutoff
  assume "db2 = rewriteRows g db \<and> keepsUris g \<and> columnsOk db"
  then show "sqlClear tab cutoff db2 = rewriteRows g (sqlClear tab cutoff db)
      \<and> keepsUris g \<and> columnsOk (sqlClear tab cutoff db)"
    using columnsOk_submit(2) by (auto simp: sqlClear_def rewriteRows_def)
qed (auto simp: rewriteRows_apply columnsOk_apply sqlCount_def simp del: runAction.simps)

section \<open>Properties\<close>

text \<open>C31. Every deletion that was queued is in the buffer, in a batch being inserted, or in a batch whose
  insert has ended, exactly once, and the buffer never reaches 1000 entries.\<close>

theorem deletes_accounted:
  assumes "delete_step\<^sup>*\<^sup>* initialQueue s"
  shows "mset (dq_queued s) =
      mset (dq_buf s) + mset (concat (dq_inserting s)) + mset (concat (map fst (dq_settled s)))
    \<and> length (dq_buf s) < dq_flushSize"
  using dq.run_inv [OF assms initial_delete_inv] by (simp add: delete_inv_def dq_views)

definition demoQueue :: delete_sys where
  "demoQueue = initialQueue\<lparr>dq_buf := [\<lparr>pd_uri = ''u'', pd_tableName = ''records''\<rparr>],
     dq_queued := [\<lparr>pd_uri = ''u'', pd_tableName = ''records''\<rparr>]\<rparr>"

lemma demoQueue_reachable: "delete_step\<^sup>*\<^sup>* initialQueue demoQueue"
proof -
  have "dq_QueueRecordDelete ''u'' (dq_buf initialQueue) = ([\<lparr>pd_uri = ''u'', pd_tableName = ''records''\<rparr>], [])"
    by (simp add: dq_QueueRecordDelete_def dq_append_def initialQueue_def)
  from DRecord [OF this] show ?thesis by (simp add: demoQueue_def initialQueue_def r_into_rtranclp)
qed

theorem deletes_accounted_witness:
  "mset (dq_queued demoQueue) = {#\<lparr>pd_uri = ''u'', pd_tableName = ''records''\<rparr>#}"
  using deletes_accounted [OF demoQueue_reachable] by (simp add: demoQueue_def initialQueue_def)

definition alone :: "cleanup_run \<Rightarrow> bool" where
  "alone run \<longleftrightarrow> cr_beforeCutoff run = [] \<and> cr_beforeCount run = [] \<and> cr_beforeDelete run = []
     \<and> cr_beforeClear run = []"

lemma processDeletes_alone:
  assumes "alone run" "cr_cutoff run = Some cutoff" "cr_counted run" "cr_mutated run = ExecOk"
    and "cr_cleared run = ExecOk" "pendingUris tab cutoff db \<noteq> {}"
  shows "0 < sqlCount tab cutoff db"
    and "processDeletes run tab col db = (sqlCount tab cutoff db,
      sqlClear tab cutoff (sqlMutate tab col cutoff db))"
proof -
  show c: "0 < sqlCount tab cutoff db" using assms(6) by (auto simp: sqlCount_def pendingUris_def filter_empty_conv)
  then show "processDeletes run tab col db = (sqlCount tab cutoff db,
      sqlClear tab cutoff (sqlMutate tab col cutoff db))"
    using assms(1-5) by (simp add: processDeletes_def alone_def runActions_def Let_def)
qed

lemma registered_orders:
  assumes "tb_mutations db = []" "tab \<noteq> ''pending_deletes''"
  shows "runActions [ClusterApplies 0, ClusterApplies 0] (sqlClear tab cutoff (sqlMutate tab col cutoff db))
      = (applyMutation (ClearPending tab cutoff (tb_block db))
          (applyMutation (DeleteIn tab col cutoff (tb_block db)) db))\<lparr>tb_mutations := []\<rparr>"
    and "runActions [ClusterApplies 1, ClusterApplies 0] (sqlClear tab cutoff (sqlMutate tab col cutoff db))
      = (applyMutation (DeleteIn tab col cutoff (tb_block db))
          (applyMutation (ClearPending tab cutoff (tb_block db)) db))\<lparr>tb_mutations := []\<rparr>"
  using assms by (simp_all add: runActions_def sqlClear_def sqlMutate_def Let_def pendingUris_def)

text \<open>C22. What a cleanup does that nothing disturbs, for a row of its table whose deletion is pending. When
  it returns, it has counted the deletion as processed and the row is still there. If the cluster applies the two
  mutations in the order of the statements, the row goes. They are mutations of different tables, so the
  cluster may apply them the other way round; the subquery then finds nothing, and the deletion is lost for
  good: whatever cleanups follow, the row stays, unless somebody asks again for its deletion or removes it.\<close>

theorem cleanup_order_decides:
  assumes "(tab, col) \<in> {(''records'', ''uri''), (''backlinks'', ''source_uri'')}"
    and "alone run" "cr_cutoff run = Some cutoff" "cr_counted run" "cr_mutated run = ExecOk" "cr_cleared run = ExecOk"
    and "tb_mutations db = []" "x \<in> set (tb_rows db tab)" "row_block x < tb_block db"
    and "row_col x col \<in> pendingUris tab cutoff db"
    and "\<forall>r \<in> set (tb_pending db). pd_uri (pr_delete r) = row_col x col
           \<longrightarrow> pr_block r < tb_block db \<and> pr_created r \<le> cutoff"
    and "processDeletes run tab col db = (n, db')"
  shows "0 < n \<and> tb_rows db' = tb_rows db \<and> tb_pending db' = tb_pending db
    \<and> x \<notin> set (tb_rows (runActions [ClusterApplies 0, ClusterApplies 0] db') tab)
    \<and> (\<forall>es ticking. (\<forall>f \<in> othersInEvents es. \<forall>d. unqueued x tab d \<longrightarrow> unqueued x tab (f d)) \<longrightarrow>
         x \<in> set (tb_rows (fst (snd (cleanupLoop ticking es (runActions [ClusterApplies 1, ClusterApplies 0] db')))) tab))"
proof -
  have col: "col = uriColumn tab" and tab: "tab \<noteq> ''pending_deletes''"
    using assms(1) by (auto simp: uriColumn_def)
  have ne: "pendingUris tab cutoff db \<noteq> {}" using assms(10) by blast
  note P = processDeletes_alone [OF assms(2-6) ne]
  have n: "0 < n" and db': "db' = sqlClear tab cutoff (sqlMutate tab col cutoff db)"
    using P(1) P(2) [of col] assms(12) by simp_all
  note O = registered_orders [OF assms(7) tab, of cutoff col, folded db']
  have gone: "x \<notin> set (tb_rows (runActions [ClusterApplies 0, ClusterApplies 0] db') tab)"
    using assms(9,10) by (simp add: O(1))
  have cleared: "pendingUris tab cutoff (applyMutation (ClearPending tab cutoff (tb_block db)) db) \<inter> {row_col x col} = {}"
    using assms(11) by (auto simp: pendingUris_def)
  have "unqueued x tab (runActions [ClusterApplies 1, ClusterApplies 0] db')"
    using assms(8,11) cleared unfolding O(2)
    by (auto simp: unqueued_def columnsOk_def col selects_def)
  then have "x \<in> set (tb_rows (fst (snd (cleanupLoop ticking es (runActions [ClusterApplies 1, ClusterApplies 0] db')))) tab)"
    if "\<forall>f \<in> othersInEvents es. \<forall>d. unqueued x tab d \<longrightarrow> unqueued x tab (f d)" for es ticking
    using cleanup_spares [OF _ that] by (simp add: unqueued_def)
  with n gone show ?thesis by (simp add: db' sqlClear_def sqlMutate_def)
qed

definition demoRow :: "string \<Rightarrow> row" where
  "demoRow uri = \<lparr>row_col = (\<lambda>c. if c = ''uri'' then uri else []), row_block = 3\<rparr>"

definition demoTables :: tables where
  "demoTables = \<lparr>tb_rows = (\<lambda>_. [])(''records'' := [demoRow ''u'', demoRow ''v'']),
     tb_pending = [\<lparr>pr_delete = \<lparr>pd_uri = ''u'', pd_tableName = ''records''\<rparr>, pr_created = 7, pr_block = 4\<rparr>],
     tb_block = 5, tb_mutations = []\<rparr>"

definition goodRun :: "int \<Rightarrow> cleanup_run" where
  "goodRun cutoff = \<lparr>cr_cutoff = Some cutoff, cr_counted = True, cr_mutated = ExecOk, cr_cleared = ExecOk,
     cr_beforeCutoff = [], cr_beforeCount = [], cr_beforeDelete = [], cr_beforeClear = []\<rparr>"

lemma demoTables_pending [simp]: "pendingUris ''records'' 9 demoTables = {''u''}"
  by (simp add: demoTables_def pendingUris_def selects_def)

theorem cleanup_order_decides_witness:
  "let db' = snd (processDeletes (goodRun 9) ''records'' ''uri'' demoTables)
   in demoRow ''u'' \<notin> set (tb_rows (runActions [ClusterApplies 0, ClusterApplies 0] db') ''records'')
    \<and> demoRow ''u'' \<in> set (tb_rows (fst (snd (cleanupLoop True [CleanupTick (goodRun 9) (goodRun 9),
          Meanwhile (ClusterApplies 0)] (runActions [ClusterApplies 1, ClusterApplies 0] db')))) ''records'')"
proof -
  let ?db' = "snd (processDeletes (goodRun 9) ''records'' ''uri'' demoTables)"
  have run: "alone (goodRun 9)" "cr_cutoff (goodRun 9) = Some 9" "cr_counted (goodRun 9)"
    "cr_mutated (goodRun 9) = ExecOk" "cr_cleared (goodRun 9) = ExecOk"
    by (simp_all add: goodRun_def alone_def)
  have tabs: "tb_mutations demoTables = []" "demoRow ''u'' \<in> set (tb_rows demoTables ''records'')"
    "row_block (demoRow ''u'') < tb_block demoTables"
    "\<forall>r \<in> set (tb_pending demoTables). pd_uri (pr_delete r) = row_col (demoRow ''u'') ''uri''
       \<longrightarrow> pr_block r < tb_block demoTables \<and> pr_created r \<le> 9"
    by (simp_all add: demoTables_def demoRow_def)
  have "row_col (demoRow ''u'') ''uri'' \<in> pendingUris ''records'' 9 demoTables" by (simp add: demoRow_def)
  from cleanup_order_decides [OF _ run tabs(1-3) this tabs(4) prod.collapse [symmetric]]
  show ?thesis
    by (simp add: Let_def othersInEvents_def othersInRun_def othersIn_def goodRun_def del: cleanupLoop.simps)
qed

text \<open>A deletion queued in the second of the cutoff, after the mutation was applied, is lost even if the
  cluster keeps the order: the row stays and the pending entry goes.\<close>

theorem cleanup_race:
  "let late = \<lparr>pr_delete = \<lparr>pd_uri = ''v'', pd_tableName = ''records''\<rparr>, pr_created = 9, pr_block = 5\<rparr>;
       insert = (\<lambda>d. d\<lparr>tb_pending := tb_pending d @ [late], tb_block := 6\<rparr>);
       run = goodRun 9\<lparr>cr_beforeClear := [ClusterApplies 0, OthersAct insert]\<rparr>;
       db = runActions [ClusterApplies 0] (snd (processDeletes run ''records'' ''uri'' demoTables))
   in demoRow ''v'' \<in> set (tb_rows db ''records'') \<and> late \<notin> set (tb_pending db) \<and> tb_mutations db = []"
  by (simp add: Let_def processDeletes_def goodRun_def demoTables_def sqlCount_def sqlMutate_def
      sqlClear_def selects_def runActions_def pendingUris_def demoRow_def)

text \<open>C24. The cleanup looks at nothing of a row but its URI. Give the rows other contents and other times in
  every column that holds no URI, and any run of the loop, with any interleaving of the cluster and of others
  that do not look at these columns either, processes the same deletions and removes the same rows. So it
  makes no difference that a row is newer than the deletion: a record created again is deleted.\<close>

theorem cleanup_ignores_age:
  assumes "keepsUris g" "columnsOk db"
    and "\<forall>f \<in> othersInEvents es. \<forall>d. columnsOk d \<longrightarrow>
           f (rewriteRows g d) = rewriteRows g (f d) \<and> columnsOk (f d)"
  shows "cleanupLoop ticking es (rewriteRows g db) =
     (let (processed, db', returned) = cleanupLoop ticking es db in (processed, rewriteRows g db', returned))"
proof -
  have "rewritten.kept g (othersInEvents es)" using assms(3) by (simp add: rewritten.kept_def)
  from rewritten.rel_cleanupLoop [OF _ this, of "rewriteRows g db" db ticking] assms(1,2) show ?thesis
    unfolding Let_def split_beta by (intro prod_eqI) simp_all
qed

text \<open>The witness stamps every row with a time after the deletion: the row is deleted all the same.\<close>

theorem cleanup_ignores_age_witness:
  "let g = (\<lambda>x. (row_col x)(''indexed_at'' := ''2030-01-01''))
   in map row_block (tb_rows (fst (snd (cleanupLoop True [CleanupTick (goodRun 9) (goodRun 9),
        Meanwhile (ClusterApplies 0)] (rewriteRows g demoTables)))) ''records'') = [3]"
proof -
  let ?g = "\<lambda>x. (row_col x)(''indexed_at'' := ''2030-01-01'')"
  let ?es = "[CleanupTick (goodRun 9) (goodRun 9), Meanwhile (ClusterApplies 0)]"
  have "keepsUris ?g" by (simp add: keepsUris_def)
  moreover have "columnsOk demoTables" by (simp add: columnsOk_def demoTables_def)
  moreover have "othersInEvents ?es = {}"
    by (simp add: othersInEvents_def othersInRun_def othersIn_def goodRun_def)
  ultimately have "cleanupLoop True ?es (rewriteRows ?g demoTables) =
      (let (processed, db', returned) = cleanupLoop True ?es demoTables in (processed, rewriteRows ?g db', returned))"
    by (intro cleanup_ignores_age) auto
  moreover have "tb_rows (fst (snd (cleanupLoop True ?es demoTables))) ''records'' = [demoRow ''v'']"
    by (simp add: runCleanup_def processDeletes_def goodRun_def demoTables_def sqlCount_def sqlMutate_def
        sqlClear_def selects_def runActions_def pendingUris_def demoRow_def)
  ultimately show ?thesis by (simp add: split_beta rewriteRows_def demoRow_def Let_def)
qed

text \<open>C23. The cleanup loop as a whole spares what nobody asked to delete: while the others queue no deletion
  of a row's URI and leave the row alone, no number of cleanups, whichever of their statements fail and
  whenever the cluster applies their mutations, removes the row.\<close>

theorem cleanup_loop_spares:
  assumes "unqueued x tab db"
    and "\<forall>f \<in> othersInEvents es. \<forall>d. unqueued x tab d \<longrightarrow> unqueued x tab (f d)"
  shows "x \<in> set (tb_rows (fst (snd (cleanupLoop ticking es db))) tab)"
  using cleanup_spares [OF assms] by (simp add: unqueued_def)

theorem cleanup_loop_spares_witness:
  "demoRow ''v'' \<in> set (tb_rows (fst (snd (cleanupLoop False
     [StabilizeOver, CleanupTick (goodRun 9) (goodRun 9), Meanwhile (ClusterApplies 0),
      CleanupTick (goodRun 9) (goodRun 9), Meanwhile (ClusterApplies 0)] demoTables))) ''records'')"
proof (rule cleanup_loop_spares)
  show "unqueued (demoRow ''v'') ''records'' demoTables"
    by (simp add: unqueued_def demoTables_def demoRow_def columnsOk_def uriColumn_def)
qed (simp add: othersInEvents_def othersInRun_def othersIn_def goodRun_def)

end
