(* ===== verification/Ingest.thy ===== *)
theory Ingest
  imports SelfLabels Models Shard
begin

text \<open>
  The event path of \<^verbatim>\<open>ingest/ingest.go\<close>: configuration defaults, the start of the tasks, the
  firehose and backfill callbacks down to the calls of the sinks. A callback is a function from what it
  reads (the event, the job store's answer, the repo, the clock) to the list of calls it makes, in order.
\<close>

section \<open>Configuration\<close>

record config =
  cfg_RelayURL :: string
  cfg_ParallelBackfills :: int
  cfg_ParallelDownloads :: int
  cfg_DisableBackfill :: bool
  cfg_DisableFirehose :: bool
  cfg_ShardN :: int
  cfg_ShardK :: int

definition DefaultRelayURL :: string where "DefaultRelayURL = ''wss://bsky.network''"

definition withDefaults :: "config \<Rightarrow> config" where
  "withDefaults cfg =
     (let cfg = (if cfg_RelayURL cfg = [] then cfg\<lparr>cfg_RelayURL := DefaultRelayURL\<rparr> else cfg);
          cfg = (if cfg_ParallelBackfills cfg = 0 then cfg\<lparr>cfg_ParallelBackfills := 300\<rparr> else cfg);
          cfg = (if cfg_ParallelDownloads cfg = 0 then cfg\<lparr>cfg_ParallelDownloads := 64\<rparr> else cfg)
      in if cfg_ParallelDownloads cfg > cfg_ParallelBackfills cfg
         then cfg\<lparr>cfg_ParallelDownloads := cfg_ParallelBackfills cfg\<rparr> else cfg)"

definition relayHost :: "config \<Rightarrow> string" where
  "relayHost cfg = ReplaceFirst (cfg_RelayURL cfg) ''wss://'' ''https://''"

text \<open>What \<^verbatim>\<open>NewIngester\<close> fixes, when the backfill store opens.\<close>

record ingester =
  ing_relayURL :: string
  ing_host :: string
  ing_parallelBackfills :: int
  ing_parallelDownloads :: int
  ing_disableBackfill :: bool
  ing_disableFirehose :: bool
  ing_shardN :: int
  ing_shardK :: int
  ing_cursor :: int

definition NewIngester :: "config \<Rightarrow> bool \<Rightarrow> ingester option" where
  "NewIngester cfg storeOpens =
     (let cfg = withDefaults cfg in
      if \<not> storeOpens then None
      else Some \<lparr>ing_relayURL = cfg_RelayURL cfg, ing_host = relayHost cfg,
        ing_parallelBackfills = cfg_ParallelBackfills cfg,
        ing_parallelDownloads = cfg_ParallelDownloads cfg,
        ing_disableBackfill = cfg_DisableBackfill cfg, ing_disableFirehose = cfg_DisableFirehose cfg,
        ing_shardN = cfg_ShardN cfg, ing_shardK = cfg_ShardK cfg, ing_cursor = 0\<rparr>)"

section \<open>Start\<close>

text \<open>The cursor store's answer; a missing store or a failed query is an error.\<close>

definition loadCursor :: "(string + int) \<Rightarrow> ingester \<Rightarrow> (string + ingester)" where
  "loadCursor answer i =
     (case answer of
        Inl e \<Rightarrow> Inl e
      | Inr cursor \<Rightarrow> Inr (if cursor > 0 then i\<lparr>ing_cursor := cursor\<rparr> else i))"

datatype task = CursorSaver | Backfiller | PumpRepos | Firehose

text \<open>\<open>buffered\<close> is whether the cursor store is a \<^verbatim>\<open>ContextCloser\<close>.\<close>

definition Run :: "(string + int) \<Rightarrow> bool \<Rightarrow> ingester \<Rightarrow> task list \<times> ingester" where
  "Run answer buffered i =
     ((if buffered then [] else [CursorSaver])
      @ (if ing_disableBackfill i then [] else [Backfiller, PumpRepos])
      @ (if ing_disableFirehose i then [] else [Firehose]),
      case loadCursor answer i of Inl _ \<Rightarrow> i | Inr i' \<Rightarrow> i')"

definition firehoseURL :: "ingester \<Rightarrow> string" where
  "firehoseURL i =
     (let url = ing_relayURL i @ ''/xrpc/com.atproto.sync.subscribeRepos''
      in if ing_cursor i > 0 then url @ ''?cursor='' @ FormatInt (ing_cursor i) else url)"

text \<open>\<^verbatim>\<open>consumeFirehose\<close>: the URL it dials and its error. \<open>dialed\<close> is the error of the dial, if any,
  and \<open>streamed\<close> that of the stream, which goes through a scheduler with 200 workers.\<close>

definition consumeFirehose :: "ingester \<Rightarrow> string option \<Rightarrow> string option \<Rightarrow> string \<times> string option" where
  "consumeFirehose i dialed streamed =
     (firehoseURL i,
      case dialed of Some err \<Rightarrow> Some (''dial firehose: '' @ err) | None \<Rightarrow> streamed)"

text \<open>
  A turn of the loop around \<^verbatim>\<open>consumeFirehose\<close>: whether the context is done before it, whether
  the connection ends with an error, whether the context is then done, and whether it becomes done in
  the two seconds before the reconnect. The result is the number of connections and whether the loop
  returned.
\<close>

record firehose_turn =
  ft_doneBefore :: bool
  ft_failed :: bool
  ft_doneAfter :: bool
  ft_doneWaiting :: bool

fun runFirehose :: "firehose_turn list \<Rightarrow> nat \<times> bool" where
  "runFirehose [] = (0, False)"
| "runFirehose (t # ts) =
     (if ft_doneBefore t then (0, True)
      else if ft_failed t \<and> (ft_doneAfter t \<or> ft_doneWaiting t) then (1, True)
      else (let (n, r) = runFirehose ts in (Suc n, r)))"

section \<open>Records\<close>

text \<open>The clock is read twice for a record: by \<^verbatim>\<open>FastCBORToJSON\<close> and for \<^verbatim>\<open>IndexedAt\<close>.\<close>

type_synonym clock = "gotime \<times> gotime"

text \<open>The calls a callback makes.\<close>

datatype sink_call =
    CallWriteRecord grecord
  | CallWriteBacklinks "backlink_record list"
  | CallApplySelfLabels string string "string list"
  | CallQueueRecordDelete string
  | CallQueueBacklinkDelete string
  | CallEnqueueJob string

text \<open>What a callback finds around it: the third-party code and the sinks that are set.\<close>

record env =
  env_lib :: cbor_lib
  env_hasBacklinks :: bool
  env_hasDeletes :: bool
  env_hasLabels :: bool

definition writeBacklinks :: "env \<Rightarrow> backlink list \<Rightarrow> string \<Rightarrow> string \<Rightarrow> string \<Rightarrow> gotime \<Rightarrow> sink_call list" where
  "writeBacklinks e backlinks collection sourceURI sourceDID createdAt =
     (if \<not> env_hasBacklinks e \<or> backlinks = [] then []
      else [CallWriteBacklinks (map (\<lambda>bl. \<lparr>blr_Ref = bl_Ref bl, blr_RefType = bl_RefType bl,
        blr_Collection = collection, blr_Path = bl_Path bl, blr_SourceURI = sourceURI,
        blr_SourceDID = sourceDID, blr_CreatedAt = createdAt\<rparr>) backlinks)])"

definition processRawRecord :: "env \<Rightarrow> clock \<Rightarrow> string \<Rightarrow> string \<Rightarrow> string \<Rightarrow> string \<Rightarrow> string \<Rightarrow> uint64 \<Rightarrow> sink_call list" where
  "processRawRecord e clk did collection rkey uri rawCBOR seq =
     (let result = FastCBORToJSON (env_lib e) (fst clk) rawCBOR rkey;
          vals = extractSelfLabels (res_JSON result)
      in [CallWriteRecord \<lparr>rec_URI = uri, rec_DID = did, rec_Collection = collection, rec_Rkey = rkey,
            rec_Record = res_JSON result, rec_CreatedAt = res_CreatedAt result,
            rec_IndexedAt = snd clk, rec_Seq = seq\<rparr>]
         @ writeBacklinks e (res_Backlinks result) collection uri did (res_CreatedAt result)
         @ (if env_hasLabels e \<and> collection = ''app.bsky.feed.post'' \<and> vals \<noteq> []
            then [CallApplySelfLabels uri did vals] else []))"

section \<open>Commits\<close>

datatype job_state = StateEnqueued | StateInProgress | StateComplete string

record repo_op =
  ro_Action :: string
  ro_Path :: string
  ro_hasCid :: bool

record commit =
  cm_Repo :: string
  cm_Seq :: int
  cm_Ops :: "repo_op list"

text \<open>
  \<open>clks k\<close> are the clock readings for operation \<open>k\<close>; \<open>job\<close> is the job store's answer (\<^const>\<open>None\<close>: no such job), \<open>rr\<close> the repo read from the blocks
  (\<^const>\<open>None\<close> if it cannot be read): the bytes of a path, or \<^const>\<open>None\<close> for an error.
\<close>

definition recordURI :: "string \<Rightarrow> string \<Rightarrow> string" where
  "recordURI did path = ''at://'' @ did @ ''/'' @ path"

definition queueDeletes :: "env \<Rightarrow> string \<Rightarrow> sink_call list" where
  "queueDeletes e uri =
     (if env_hasDeletes e then [CallQueueRecordDelete uri, CallQueueBacklinkDelete uri] else [])"

definition handleOp :: "env \<Rightarrow> clock \<Rightarrow> bool \<Rightarrow> (string \<Rightarrow> string option) option \<Rightarrow> commit \<Rightarrow> repo_op \<Rightarrow> sink_call list" where
  "handleOp e clk backfilling rr c op =
     (let uri = recordURI (cm_Repo c) (ro_Path op);
          parts = SplitN (ro_Path op) CHR ''/'' 2
      in if length parts \<noteq> 2 then []
         else
           (let collection = parts ! 0; rkey = parts ! 1 in
            if ro_Action op = ''create'' \<or> ro_Action op = ''update'' then
              (if backfilling then []
               else case rr of
                 None \<Rightarrow> []
               | Some getBytes \<Rightarrow>
                   if \<not> ro_hasCid op then []
                   else (case getBytes (ro_Path op) of
                           None \<Rightarrow> []
                         | Some recBytes \<Rightarrow>
                             if recBytes = [] then []
                             else processRawRecord e clk (cm_Repo c) collection rkey uri recBytes
                                    (word_of_int (cm_Seq c))))
            else if ro_Action op = ''delete'' then
              queueDeletes e (''at://'' @ cm_Repo c @ ''/'' @ collection @ ''/'' @ rkey)
            else []))"

definition handleCommit :: "env \<Rightarrow> (nat \<Rightarrow> clock) \<Rightarrow> job_state option \<Rightarrow> (string \<Rightarrow> string option) option \<Rightarrow> commit
    \<Rightarrow> ingester \<Rightarrow> sink_call list \<times> ingester" where
  "handleCommit e clks job rr c i =
     (let i' = i\<lparr>ing_cursor := cm_Seq c\<rparr>;
          backfilling = (job = Some StateInProgress \<or> job = Some StateEnqueued)
      in ((if job = None then [CallEnqueueJob (cm_Repo c)] else [])
          @ concat (map (\<lambda>k. handleOp e (clks k) backfilling rr c (cm_Ops c ! k)) [0..<length (cm_Ops c)]), i'))"

definition handleIdentity :: "string \<Rightarrow> sink_call list" where
  "handleIdentity did = []"

datatype event = RepoCommit commit | RepoIdentity string | OtherEvent

text \<open>\<open>admitted\<close> is the answer of \<^verbatim>\<open>beginWork\<close>; \<^const>\<open>None\<close> is \<^verbatim>\<open>context.Canceled\<close>.\<close>

definition handleEvent :: "bool \<Rightarrow> env \<Rightarrow> (nat \<Rightarrow> clock) \<Rightarrow> job_state option \<Rightarrow> (string \<Rightarrow> string option) option \<Rightarrow> event
    \<Rightarrow> ingester \<Rightarrow> (sink_call list \<times> ingester) option" where
  "handleEvent admitted e clks job rr evt i =
     (if \<not> admitted then None
      else Some (case evt of
          RepoCommit c \<Rightarrow> handleCommit e clks job rr c i
        | RepoIdentity did \<Rightarrow> (handleIdentity did, i)
        | OtherEvent \<Rightarrow> ([], i)))"

section \<open>Backfill callbacks\<close>

definition handleBackfillCreateActive :: "env \<Rightarrow> clock \<Rightarrow> string \<Rightarrow> string \<Rightarrow> string option \<Rightarrow> sink_call list" where
  "handleBackfillCreateActive e clk did path rec =
     (let parts = SplitN path CHR ''/'' 2 in
      if length parts \<noteq> 2 then []
      else case rec of
        None \<Rightarrow> []
      | Some bytes \<Rightarrow>
          if bytes = [] then []
          else processRawRecord e clk did (parts ! 0) (parts ! 1) (recordURI did path) bytes 0)"

definition handleBackfillCreate :: "bool \<Rightarrow> env \<Rightarrow> clock \<Rightarrow> string \<Rightarrow> string \<Rightarrow> string option \<Rightarrow> sink_call list option" where
  "handleBackfillCreate admitted e clk did path rec =
     (if admitted then Some (handleBackfillCreateActive e clk did path rec) else None)"

definition handleBackfillUpdate :: "bool \<Rightarrow> env \<Rightarrow> clock \<Rightarrow> string \<Rightarrow> string \<Rightarrow> string option \<Rightarrow> sink_call list option" where
  "handleBackfillUpdate admitted e clk did path rec =
     (if admitted then Some (handleBackfillCreateActive e clk did path rec) else None)"

definition handleBackfillDelete :: "bool \<Rightarrow> env \<Rightarrow> string \<Rightarrow> string \<Rightarrow> sink_call list option" where
  "handleBackfillDelete admitted e did path =
     (if admitted then Some (queueDeletes e (recordURI did path)) else None)"

section \<open>Lemmas\<close>

lemma SplitN2_path: "CHR ''/'' \<notin> set c \<Longrightarrow> SplitN (c @ ''/'' @ r) CHR ''/'' 2 = [c, r]"
  using SplitN2_cases [of "c @ ''/'' @ r" "CHR ''/''"] by simp

lemma SplitN2_join:
  "length (SplitN p CHR ''/'' 2) = 2 \<Longrightarrow> p = SplitN p CHR ''/'' 2 ! 0 @ ''/'' @ SplitN p CHR ''/'' 2 ! 1
     \<and> CHR ''/'' \<notin> set (SplitN p CHR ''/'' 2 ! 0)"
  using SplitN2_cases [of p "CHR ''/''"] Cut_Some_iff [of p "CHR ''/''"]
  by (auto split: option.splits)

text \<open>The URI a deletion is queued under is the URI the record was written under.\<close>

lemma op_uri:
  "length (SplitN p CHR ''/'' 2) = 2 \<Longrightarrow>
   ''at://'' @ did @ ''/'' @ SplitN p CHR ''/'' 2 ! 0 @ ''/'' @ SplitN p CHR ''/'' 2 ! 1 = recordURI did p"
  using SplitN2_join [of p] by (simp add: recordURI_def)

section \<open>Properties\<close>

definition withSeq :: "uint64 \<Rightarrow> sink_call \<Rightarrow> sink_call" where
  "withSeq seq call = (case call of CallWriteRecord r \<Rightarrow> CallWriteRecord (r\<lparr>rec_Seq := seq\<rparr>) | _ \<Rightarrow> call)"

definition deleteURIs :: "commit \<Rightarrow> string list" where
  "deleteURIs c = map (\<lambda>op. recordURI (cm_Repo c) (ro_Path op))
     (filter (\<lambda>op. ro_Action op = ''delete'' \<and> length (SplitN (ro_Path op) CHR ''/'' 2) = 2) (cm_Ops c))"

lemma concat_map_nth: "concat (map (\<lambda>k. f (xs ! k)) [0..<length xs]) = concat (map f xs)"
proof -
  have "map (\<lambda>k. f (xs ! k)) [0..<length xs] = map f (map (\<lambda>k. xs ! k) [0..<length xs])" by simp
  then show ?thesis by (simp only: map_nth)
qed

lemma handleOp_backfilling:
  "handleOp e clk True rr c op =
     (if ro_Action op = ''delete'' \<and> length (SplitN (ro_Path op) CHR ''/'' 2) = 2
      then queueDeletes e (recordURI (cm_Repo c) (ro_Path op)) else [])"
  using op_uri [of "ro_Path op" "cm_Repo c"] by (auto simp: handleOp_def Let_def)

text \<open>C26. While the repository of a commit is being backfilled (or waits for it), the commit's creates
  and updates are skipped, whatever they contain: nothing is buffered for later. Its deletes are queued,
  in order, under the URIs of the records.\<close>

theorem backfilling_commit:
  assumes "job = Some StateInProgress \<or> job = Some StateEnqueued"
  shows "fst (handleCommit e clks job rr c i) = concat (map (queueDeletes e) (deleteURIs c))"
proof -
  have b: "(job = Some StateInProgress \<or> job = Some StateEnqueued) = True" using assms by blast
  have "concat (map (\<lambda>op. if ro_Action op = ''delete'' \<and> length (SplitN (ro_Path op) CHR ''/'' 2) = 2
      then queueDeletes e (recordURI (cm_Repo c) (ro_Path op)) else []) ops)
    = concat (map (queueDeletes e) (map (\<lambda>op. recordURI (cm_Repo c) (ro_Path op))
        (filter (\<lambda>op. ro_Action op = ''delete'' \<and> length (SplitN (ro_Path op) CHR ''/'' 2) = 2) ops)))"
    for ops by (induction ops) simp_all
  moreover have "job \<noteq> None" using assms by auto
  ultimately show ?thesis
    unfolding handleCommit_def Let_def b handleOp_backfilling deleteURIs_def
    by (simp only: concat_map_nth [of "\<lambda>op. if ro_Action op = ''delete''
          \<and> length (SplitN (ro_Path op) CHR ''/'' 2) = 2
        then queueDeletes e (recordURI (cm_Repo c) (ro_Path op)) else []"] fst_conv if_False append_Nil)
qed

definition demoEnv :: env where
  "demoEnv = \<lparr>env_lib = rfcLib, env_hasBacklinks = True, env_hasDeletes = True,
     env_hasLabels = False\<rparr>"

definition demoCommit :: commit where
  "demoCommit = \<lparr>cm_Repo = ''did:plc:a'', cm_Seq = 5,
     cm_Ops = [\<lparr>ro_Action = ''create'', ro_Path = ''c/r1'', ro_hasCid = True\<rparr>,
               \<lparr>ro_Action = ''delete'', ro_Path = ''c/r2'', ro_hasCid = False\<rparr>]\<rparr>"

definition demoIngester :: ingester where
  "demoIngester = \<lparr>ing_relayURL = DefaultRelayURL, ing_host = ''https://bsky.network'',
     ing_parallelBackfills = 300, ing_parallelDownloads = 64, ing_disableBackfill = False,
     ing_disableFirehose = False, ing_shardN = 0, ing_shardK = 1, ing_cursor = 0\<rparr>"

theorem backfilling_commit_witness:
  "fst (handleCommit demoEnv (\<lambda>_. (epoch, epoch)) (Some StateEnqueued) (Some (\<lambda>_. Some [CHR 0xA0])) demoCommit demoIngester)
   = [CallQueueRecordDelete ''at://did:plc:a/c/r2'', CallQueueBacklinkDelete ''at://did:plc:a/c/r2'']"
  using backfilling_commit [of "Some StateEnqueued" demoEnv "\<lambda>_. (epoch, epoch)" "Some (\<lambda>_. Some [CHR 0xA0])" demoCommit demoIngester]
  by (simp add: deleteURIs_def demoCommit_def demoEnv_def queueDeletes_def recordURI_def SplitN2_cases)

text \<open>C25. The firehose and the backfill store a record the same way: a create or an update with a CID,
  whose bytes the repo has, makes the same calls as the backfill callback for the same path and bytes,
  in the same order; only the sequence number of the record differs.\<close>

theorem firehose_matches_backfill:
  assumes "ro_Action op = ''create'' \<or> ro_Action op = ''update''" "ro_hasCid op"
    and "getBytes (ro_Path op) = Some bytes"
  shows "handleOp e clk False (Some getBytes) c op =
     map (withSeq (word_of_int (cm_Seq c))) (handleBackfillCreateActive e clk (cm_Repo c) (ro_Path op) (Some bytes))"
  using assms
  by (auto simp: handleOp_def handleBackfillCreateActive_def processRawRecord_def writeBacklinks_def
      withSeq_def Let_def)

theorem firehose_matches_backfill_witness:
  "handleOp demoEnv (epoch, epoch) False (Some (\<lambda>_. Some [CHR 0xA0])) demoCommit (cm_Ops demoCommit ! 0) =
     map (withSeq 5) (handleBackfillCreateActive demoEnv (epoch, epoch) ''did:plc:a'' ''c/r1'' (Some [CHR 0xA0]))"
  using firehose_matches_backfill [of "cm_Ops demoCommit ! 0" "\<lambda>_. Some [CHR 0xA0]" "[CHR 0xA0]" demoEnv
      "(epoch, epoch)" demoCommit]
  by (simp add: demoCommit_def)

text \<open>C27. The backlinks of a record travel with it: every batch of backlinks a callback writes follows a
  record with the same URI, author, collection and creation time, is not empty, and holds only AT-URIs
  labelled \<^verbatim>\<open>uri\<close> and DIDs labelled \<^verbatim>\<open>did\<close>.\<close>

theorem backlinks_follow_record:
  assumes "CallWriteBacklinks bls \<in> set (processRawRecord e clk did collection rkey uri bytes seq)"
  shows "bls \<noteq> [] \<and> (\<exists>r. hd (processRawRecord e clk did collection rkey uri bytes seq) = CallWriteRecord r
     \<and> (\<forall>b \<in> set bls. blr_SourceURI b = rec_URI r \<and> blr_SourceDID b = rec_DID r
         \<and> blr_Collection b = rec_Collection r \<and> blr_CreatedAt b = rec_CreatedAt r
         \<and> (isATURIBytes (blr_Ref b) \<and> blr_RefType b = ''uri'' \<or> isDIDBytes (blr_Ref b) \<and> blr_RefType b = ''did'')))"
proof -
  have refs: "list_all (\<lambda>bl. (isATURIBytes (bl_Ref bl) \<and> bl_RefType bl = ''uri'')
        \<or> (isDIDBytes (bl_Ref bl) \<and> bl_RefType bl = ''did''))
      (res_Backlinks (FastCBORToJSON lib now data rkey))" for lib now data rkey
    by (auto simp: FastCBORToJSON_cases list_all_iff dest: refs_kind split: sum.splits)
  show ?thesis
    using assms refs [of "env_lib e" "fst clk" bytes rkey]
    by (auto simp: processRawRecord_def writeBacklinks_def Let_def list_all_iff split: if_splits)
qed

definition demoLinkBytes :: string where
  "demoLinkBytes = [CHR 0x69, CHR ''d'', CHR ''i'', CHR ''d'', CHR '':'', CHR ''w'', CHR ''e'', CHR ''b'', CHR '':'', CHR ''a'']"

definition demoCalls :: "sink_call list" where
  "demoCalls = processRawRecord demoEnv (epoch, epoch) ''d'' ''c'' ''r'' ''at://d/c/r'' demoLinkBytes 0"

lemma demoCalls_links: "\<exists>bls. demoCalls ! 1 = CallWriteBacklinks bls \<and> length demoCalls = 2"
proof -
  have "(case demoCalls ! 1 of CallWriteBacklinks bls \<Rightarrow> True | _ \<Rightarrow> False) \<and> length demoCalls = 2"
    by code_simp
  then show ?thesis by (cases "demoCalls ! 1") simp_all
qed

theorem backlinks_follow_record_witness:
  "\<exists>b. blr_SourceURI b = ''at://d/c/r'' \<and> (\<exists>bls. b \<in> set bls \<and> demoCalls ! 1 = CallWriteBacklinks bls)"
proof -
  obtain bls where b: "demoCalls ! 1 = CallWriteBacklinks bls" "length demoCalls = 2"
    using demoCalls_links by blast
  then have "CallWriteBacklinks bls \<in> set demoCalls" by (metis lessI nth_mem numeral_2_eq_2 One_nat_def)
  note P = backlinks_follow_record [OF this [unfolded demoCalls_def]]
  then have "bls \<noteq> []" by blast
  then obtain x where "x \<in> set bls" by (meson hd_in_set)
  moreover from this P have "blr_SourceURI x = ''at://d/c/r''"
    by (auto simp: processRawRecord_def Let_def)
  ultimately show ?thesis using b(1) by blast
qed

definition labelCalls :: "sink_call list \<Rightarrow> sink_call list" where
  "labelCalls = filter (\<lambda>call. case call of CallApplySelfLabels _ _ _ \<Rightarrow> True | _ \<Rightarrow> False)"

text \<open>C13. The self labels of a post reach the label store once, in one call, under the URI and the author
  of the record: the texts at \<^verbatim>\<open>labels.values[].val\<close> of the record as it was decoded, in order,
  without the empty ones and with invalid UTF-8 replaced. A record of another collection, or one without
  labels, makes no such call.\<close>

theorem self_labels_applied:
  assumes "wfLib (env_lib e)"
    and "decodeValue (env_lib e) (Suc (length bytes)) bytes = Inr (v, r)"
    and "nesting v \<le> maxNestingDepth" "selfLabels v = Some ss"
  shows "labelCalls (processRawRecord e clk did collection rkey uri bytes seq) =
     (if env_hasLabels e \<and> collection = ''app.bsky.feed.post'' \<and> (\<exists>s \<in> set ss. s \<noteq> [])
      then [CallApplySelfLabels uri did (filter (\<lambda>s. s \<noteq> []) (map toValidUTF8 ss))] else [])"
proof -
  have "(filter (\<lambda>s. s \<noteq> []) (map toValidUTF8 ss) \<noteq> []) = (\<exists>s \<in> set ss. s \<noteq> [])"
    by (auto simp: filter_empty_conv toValidUTF8_Nil)
  then show ?thesis
    using extractSelfLabels_record [OF assms(1-4)]
    by (auto simp: processRawRecord_def labelCalls_def writeBacklinks_def Let_def)
qed

definition demoPost :: string where
  "demoPost = [CHR 0xA1, CHR 0x66, CHR ''l'', CHR ''a'', CHR ''b'', CHR ''e'', CHR ''l'', CHR ''s'',
     CHR 0xA1, CHR 0x66, CHR ''v'', CHR ''a'', CHR ''l'', CHR ''u'', CHR ''e'', CHR ''s'',
     CHR 0x82, CHR 0xA1, CHR 0x63, CHR ''v'', CHR ''a'', CHR ''l'', CHR 0x63, CHR ''s'', CHR ''p'', CHR ''a'',
     CHR 0xA1, CHR 0x63, CHR ''v'', CHR ''a'', CHR ''l'', CHR 0x60]"

definition demoPostValue :: cval where
  "demoPostValue = CMap [(''labels'', CMap [(''values'',
     CArr [CMap [(''val'', CText ''spa'')], CMap [(''val'', CText [])]])])]"

lemma demoPost_decoded: "decodeValue rfcLib (Suc (length demoPost)) demoPost = Inr (demoPostValue, [])"
  by code_simp

lemma demoPost_labels: "selfLabels demoPostValue = Some [''spa'', []] \<and> nesting demoPostValue \<le> maxNestingDepth"
  by code_simp

theorem self_labels_applied_witness:
  "labelCalls (processRawRecord (demoEnv\<lparr>env_hasLabels := True\<rparr>) (epoch, epoch) ''d'' ''app.bsky.feed.post'' ''r'' ''u'' demoPost 0)
   = [CallApplySelfLabels ''u'' ''d'' [''spa'']]"
  using self_labels_applied [of "demoEnv\<lparr>env_hasLabels := True\<rparr>" demoPost demoPostValue "[]" "[''spa'', []]"]
    demoPost_decoded demoPost_labels wfLib_rfcLib toValidUTF8_valid [OF validUtf8_ascii, of "''spa''"]
  by (simp add: demoEnv_def toValidUTF8_Nil del: decodeValue.simps)

end
