(* ===== verification/Pump.thy ===== *)
theory Pump
  imports Shard
begin

text \<open>
  The repo pump (\<^verbatim>\<open>pumpRepos\<close> of \<^verbatim>\<open>ingest/ingest.go\<close>, \<^verbatim>\<open>PumpProgress\<close> of
  \<^verbatim>\<open>ingest/bfstore.go\<close>): it lists every repository of the relay page by page, enqueues a backfill
  job for those in its shard, and keeps a checkpoint from which it resumes. The relay's answers, the
  clock and the database's answers are the rounds given to the loop.
\<close>

section \<open>Model\<close>

record pump_progress =
  pp_Cursor :: string
  pp_TotalPumped :: int
  pp_Completed :: bool

text \<open>
  What \<^verbatim>\<open>EnqueueJob\<close> of the job store answers: nil or an error with its message. An error that says
  that there is a job already is ignored; every other one is logged, and only logged.
\<close>

datatype enqueue_answer = Enqueued | EnqueueError string

definition failedJob :: "enqueue_answer \<Rightarrow> bool" where
  "failedJob answer =
     (case answer of Enqueued \<Rightarrow> False | EnqueueError msg \<Rightarrow> \<not> Contains msg ''already exists'')"

text \<open>
  What one turn of the loop meets: the context is done (\<open>Interrupt\<close>, with whether the final save
  succeeds), the listing fails, or it answers a page (the DIDs, each with what \<^verbatim>\<open>EnqueueJob\<close> answers
  if it is called for it, the next cursor if there is one, whether 30 seconds have passed since the last
  save, whether a save succeeds).
\<close>

datatype pump_round =
    Interrupt bool
  | ListFailed
  | Page "(string \<times> enqueue_answer) list" "string option" bool bool

datatype pump_end = PumpRunning | PumpInterrupted | PumpCompleted | PumpPanicked go_panic

text \<open>The loop over \<^verbatim>\<open>resp.Repos\<close>: the calls of \<^verbatim>\<open>EnqueueJob\<close> with their answers, and the
  panic of the shard test that ends it, if there is one.\<close>

fun pumpPage :: "(string \<Rightarrow> go_panic + bool) \<Rightarrow> (string \<times> enqueue_answer) list
    \<Rightarrow> (string \<times> enqueue_answer) list \<times> go_panic option" where
  "pumpPage shard [] = ([], None)"
| "pumpPage shard ((did, answer) # repos) =
     (case shard did of
        Inl e \<Rightarrow> ([], Some e)
      | Inr False \<Rightarrow> pumpPage shard repos
      | Inr True \<Rightarrow>
          (let (calls, panic) = pumpPage shard repos in ((did, answer) # calls, panic)))"

definition saveProgress :: "bool \<Rightarrow> string \<Rightarrow> int \<Rightarrow> pump_progress \<Rightarrow> pump_progress" where
  "saveProgress ok cursor pumped db =
     (if ok then db\<lparr>pp_Cursor := cursor, pp_TotalPumped := pumped\<rparr> else db)"

fun pumpLoop :: "(string \<Rightarrow> go_panic + bool) \<Rightarrow> pump_round list \<Rightarrow> string \<Rightarrow> int \<Rightarrow> pump_progress
    \<Rightarrow> (string \<times> enqueue_answer) list \<times> pump_progress \<times> pump_end" where
  "pumpLoop shard [] cursor pumped db = ([], db, PumpRunning)"
| "pumpLoop shard (Interrupt ok # rounds) cursor pumped db =
     ([], saveProgress ok cursor pumped db, PumpInterrupted)"
| "pumpLoop shard (ListFailed # rounds) cursor pumped db = pumpLoop shard rounds cursor pumped db"
| "pumpLoop shard (Page repos next due ok # rounds) cursor pumped db =
     (case pumpPage shard repos of
        (calls, Some e) \<Rightarrow> (calls, db, PumpPanicked e)
      | (calls, None) \<Rightarrow>
          (let pumped = pumped + int (length calls) in
           if next = None \<or> next = Some [] then
             (calls, if ok then (saveProgress True cursor pumped db)\<lparr>pp_Completed := True\<rparr> else db,
              PumpCompleted)
           else
             (let cursor = the next;
                  db = (if due then saveProgress ok cursor pumped db else db);
                  (more, db, result) = pumpLoop shard rounds cursor pumped db
              in (calls @ more, db, result))))"

text \<open>
  \<open>found\<close> is the stored progress; without one, \<open>created\<close> is whether a first one can be stored. The
  result is the calls of \<^verbatim>\<open>EnqueueJob\<close> and the progress stored at the end, with how the loop ended;
  nothing at all if it is not run.
\<close>

definition pumpRepos :: "(string \<Rightarrow> go_panic + bool) \<Rightarrow> pump_progress option \<Rightarrow> bool \<Rightarrow> pump_round list
    \<Rightarrow> ((string \<times> enqueue_answer) list \<times> pump_progress \<times> pump_end) option" where
  "pumpRepos shard found created rounds =
     (case found of
        Some progress \<Rightarrow>
          if pp_Completed progress then None
          else Some (pumpLoop shard rounds (pp_Cursor progress) (pp_TotalPumped progress) progress)
      | None \<Rightarrow>
          if \<not> created then None
          else (let progress = \<lparr>pp_Cursor = [], pp_TotalPumped = 0, pp_Completed = False\<rparr>
                in Some (pumpLoop shard rounds [] 0 progress)))"

text \<open>The DIDs that have a job after some calls, and those whose call failed.\<close>

definition withJob :: "(string \<times> enqueue_answer) list \<Rightarrow> string list" where
  "withJob calls = map fst (filter (\<lambda>c. \<not> failedJob (snd c)) calls)"

definition withoutJob :: "(string \<times> enqueue_answer) list \<Rightarrow> string list" where
  "withoutJob calls = map fst (filter (\<lambda>c. failedJob (snd c)) calls)"

lemma jobs_split: "set (map fst calls) = set (withJob calls) \<union> set (withoutJob calls)"
  by (auto simp: withJob_def withoutJob_def)

section \<open>What a relay serves\<close>

text \<open>
  A relay whose listing does not change: the page at a cursor and the next cursor. \<open>served\<close> is the
  list of all DIDs from a cursor to the end; \<open>follows\<close> says that the pages of some rounds are the
  relay's.
\<close>

inductive served :: "(string \<Rightarrow> string list \<times> string option) \<Rightarrow> string \<Rightarrow> string list \<Rightarrow> bool"
  for listing where
  served_last: "listing c = (repos, next) \<Longrightarrow> next = None \<or> next = Some [] \<Longrightarrow> served listing c repos"
| served_more: "listing c = (repos, Some c') \<Longrightarrow> c' \<noteq> [] \<Longrightarrow> served listing c' rest \<Longrightarrow>
    served listing c (repos @ rest)"

inductive_cases servedE: "served listing c dids"

fun follows :: "(string \<Rightarrow> string list \<times> string option) \<Rightarrow> string \<Rightarrow> pump_round list \<Rightarrow> bool" where
  "follows listing c [] = True"
| "follows listing c (Interrupt ok # rounds) = True"
| "follows listing c (ListFailed # rounds) = follows listing c rounds"
| "follows listing c (Page repos next due ok # rounds) =
     (listing c = (map fst repos, next) \<and> (next = None \<or> next = Some [] \<or> follows listing (the next) rounds))"

definition mine :: "(string \<Rightarrow> go_panic + bool) \<Rightarrow> string list \<Rightarrow> string list" where
  "mine shard dids = filter (\<lambda>did. shard did = Inr True) dids"

lemma mine_simps [simp]:
  "mine shard [] = []"
  "mine shard (xs @ ys) = mine shard xs @ mine shard ys"
  by (simp_all add: mine_def)

lemma pumpPage_mine:
  assumes "\<And>did. \<exists>b. shard did = Inr b"
  shows "\<exists>calls. pumpPage shard repos = (calls, None) \<and> map fst calls = mine shard (map fst repos)
    \<and> set calls \<subseteq> set repos"
proof (induction repos)
  case (Cons r repos)
  obtain did answer where r: "r = (did, answer)" by (cases r)
  from assms obtain b where "shard did = Inr b" by blast
  with Cons r show ?case by (cases b) (auto simp: mine_def)
qed (simp add: mine_def)

text \<open>
  What is still to do from a stored progress: nothing if it is completed, else what the relay serves
  from its cursor.
\<close>

definition todo :: "(string \<Rightarrow> string list \<times> string option) \<Rightarrow> pump_progress \<Rightarrow> string list \<Rightarrow> bool" where
  "todo listing db rest \<longleftrightarrow> (if pp_Completed db then rest = [] else served listing (pp_Cursor db) rest)"

text \<open>
  The invariant of the loop, with \<open>prior\<close> the DIDs listed between the checkpoint in \<open>db\<close> and the
  current cursor.
\<close>

lemma pumpLoop_covers:
  assumes "\<And>did. \<exists>b. shard did = Inr b"
    and "follows listing cursor rounds" "served listing cursor dids"
    and "\<not> pp_Completed db" "served listing (pp_Cursor db) (prior @ dids)"
    and "pumpLoop shard rounds cursor pumped db = (calls, db', result)"
  shows "(\<exists>rest. mine shard dids = map fst calls @ mine shard rest \<and> (result = PumpCompleted \<longrightarrow> rest = []))
    \<and> (\<exists>kept rest. todo listing db' rest \<and> mine shard (prior @ dids) = kept @ mine shard rest
         \<and> set kept \<subseteq> set (mine shard prior) \<union> set (map fst calls))
    \<and> (\<forall>e. result \<noteq> PumpPanicked e)"
  using assms(2-)
proof (induction rounds arbitrary: cursor pumped db dids prior calls)
  case Nil
  then have e: "calls = []" "db' = db" "result = PumpRunning" by auto
  then have "todo listing db' (prior @ dids)" using Nil by (simp add: todo_def)
  then show ?case using e by (intro conjI) (force intro: exI [of _ "[]"])+
next
  case (Cons r rounds)
  show ?case
  proof (cases r)
    case (Interrupt ok)
    with Cons.prems have e: "calls = []" "db' = saveProgress ok cursor pumped db" "result = PumpInterrupted" by auto
    show ?thesis
    proof (cases ok)
      case True
      then have "todo listing db' dids" using Cons.prems e by (simp add: todo_def saveProgress_def)
      moreover have "mine shard (prior @ dids) = mine shard prior @ mine shard dids" by simp
      ultimately have "\<exists>kept rest. todo listing db' rest \<and> mine shard (prior @ dids) = kept @ mine shard rest
          \<and> set kept \<subseteq> set (mine shard prior) \<union> set (map fst calls)" by blast
      then show ?thesis using e by auto
    next
      case False
      then have "todo listing db' (prior @ dids)" using Cons.prems e by (simp add: todo_def saveProgress_def)
      then show ?thesis using e by (intro conjI) (force intro: exI [of _ "[]"])+
    qed
  next
    case ListFailed
    with Cons show ?thesis by simp
  next
    case (Page repos nxt due ok)
    obtain here where page: "pumpPage shard repos = (here, None)" "map fst here = mine shard (map fst repos)"
      using pumpPage_mine [of shard repos] assms(1) by blast
    from Cons.prems Page have list: "listing cursor = (map fst repos, nxt)" by simp
    show ?thesis
    proof (cases "nxt = None \<or> nxt = Some []")
      case True
      from Cons.prems(2) have dids: "dids = map fst repos" by (rule servedE) (use list True in auto)
      have out: "calls = here" "result = PumpCompleted"
        "db' = (if ok then (saveProgress True cursor (pumped + int (length here)) db)\<lparr>pp_Completed := True\<rparr> else db)"
        using Cons.prems(5) Page page(1) True by auto
      let ?rest = "if ok then [] else prior @ dids" and ?kept = "if ok then mine shard (prior @ dids) else []"
      have "todo listing db' ?rest" using Cons.prems(3,4) by (simp add: out(3) todo_def)
      moreover have "mine shard (prior @ dids) = ?kept @ mine shard ?rest" by (simp add: mine_def)
      moreover have "set ?kept \<subseteq> set (mine shard prior) \<union> set (map fst calls)"
        unfolding out(1) page(2) by (auto simp: dids)
      ultimately have "\<exists>kept rest. todo listing db' rest \<and> mine shard (prior @ dids) = kept @ mine shard rest
          \<and> set kept \<subseteq> set (mine shard prior) \<union> set (map fst calls)" by blast
      moreover have "mine shard dids = map fst calls @ mine shard []" by (simp add: out(1) dids page(2))
      ultimately show ?thesis using out(2) by blast
    next
      case False
      then obtain c' where c': "nxt = Some c'" "c' \<noteq> []" by auto
      from Cons.prems(2) obtain ds where ds: "dids = map fst repos @ ds" "served listing c' ds"
        by (rule servedE) (use list c' in auto)
      let ?pumped = "pumped + int (length here)"
      let ?db = "if due then saveProgress ok c' ?pumped db else db"
      obtain more where rec: "pumpLoop shard rounds c' ?pumped ?db = (more, db', result)"
        and calls: "calls = here @ more"
        using Cons.prems(5) Page page(1) False c' by (auto simp: Let_def split: prod.splits)
      have f: "follows listing c' rounds" using Cons.prems(1) Page c' by auto
      let ?prior = "if due \<and> ok then [] else prior @ map fst repos"
      have s: "served listing (pp_Cursor ?db) (?prior @ ds)"
        using Cons.prems(4) ds by (auto simp: saveProgress_def)
      have nc: "\<not> pp_Completed ?db" using Cons.prems(3) by (auto simp: saveProgress_def)
      note IH = Cons.IH [OF f ds(2) nc s rec]
      from IH obtain rest where 1: "mine shard ds = map fst more @ mine shard rest"
        "result = PumpCompleted \<longrightarrow> rest = []" by blast
      from IH obtain kept rest' where 2: "todo listing db' rest'"
        "mine shard (?prior @ ds) = kept @ mine shard rest'"
        "set kept \<subseteq> set (mine shard ?prior) \<union> set (map fst more)" by blast
      let ?kept = "if due \<and> ok then mine shard (prior @ map fst repos) @ kept else kept"
      have "mine shard (prior @ dids) = ?kept @ mine shard rest'"
        using 2(2) ds(1) by (auto split: if_splits)
      moreover have "set ?kept \<subseteq> set (mine shard prior) \<union> set (map fst calls)"
        unfolding calls map_append page(2) using 2(3) by (auto split: if_splits)
      ultimately have "\<exists>kept rest. todo listing db' rest \<and> mine shard (prior @ dids) = kept @ mine shard rest
          \<and> set kept \<subseteq> set (mine shard prior) \<union> set (map fst calls)" using 2(1) by blast
      moreover have "mine shard dids = map fst calls @ mine shard rest"
        using 1(1) by (simp add: ds(1) calls page(2))
      ultimately show ?thesis using 1(2) IH by blast
    qed
  qed
qed

lemma pumpRepos_covers:
  assumes "\<And>did. \<exists>b. shard did = Inr b"
    and "served listing (pp_Cursor progress) dids" "follows listing (pp_Cursor progress) rounds"
    and "pumpRepos shard (Some progress) created rounds = Some (calls, db', result)"
  shows "(\<exists>rest. mine shard dids = map fst calls @ mine shard rest \<and> (result = PumpCompleted \<longrightarrow> rest = []))
    \<and> (\<exists>rest. todo listing db' rest \<and> set (mine shard dids) \<subseteq> set (map fst calls) \<union> set (mine shard rest))"
proof -
  have nc: "\<not> pp_Completed progress"
    and run: "pumpLoop shard rounds (pp_Cursor progress) (pp_TotalPumped progress) progress = (calls, db', result)"
    using assms(4) by (auto simp: pumpRepos_def split: if_splits)
  have s: "served listing (pp_Cursor progress) ([] @ dids)" using assms(2) by simp
  note P = pumpLoop_covers [OF assms(1) assms(3) assms(2) nc s run]
  from P obtain kept rest where "todo listing db' rest" "mine shard ([] @ dids) = kept @ mine shard rest"
    "set kept \<subseteq> set (mine shard []) \<union> set (map fst calls)" by blast
  then have "todo listing db' rest \<and> set (mine shard dids) \<subseteq> set (map fst calls) \<union> set (mine shard rest)"
    by auto
  with P show ?thesis by blast
qed

lemma pump_completed:
  assumes "\<And>did. \<exists>b. shard did = Inr b"
    and "served listing (pp_Cursor progress) dids" "follows listing (pp_Cursor progress) rounds"
    and "pumpRepos shard (Some progress) created rounds = Some (calls, db', PumpCompleted)"
  shows "map fst calls = mine shard dids"
  using pumpRepos_covers [of shard, OF assms] by auto

section \<open>Properties\<close>

text \<open>C14. What becomes of every repository: whatever interrupts the pump and whichever saves and calls
  fail, every DID that the relay serves from the starting checkpoint and that belongs to the shard has a
  job after this run, or its \<^verbatim>\<open>EnqueueJob\<close> failed and was logged, or it is served again from the
  checkpoint stored at the end. A run that completes has called \<^verbatim>\<open>EnqueueJob\<close> for exactly the
  shard's DIDs, in order. A failed call is final: no DID that is listed once is tried again by the run,
  and a run whose completion was stored is never followed by another.\<close>

theorem pump_accounts:
  assumes "\<And>did. \<exists>b. shard did = Inr b"
    and "served listing (pp_Cursor progress) dids" "follows listing (pp_Cursor progress) rounds"
    and "pumpRepos shard (Some progress) created rounds = Some (calls, db', result)"
  shows "(result = PumpCompleted \<longrightarrow> map fst calls = mine shard dids)
    \<and> (\<exists>rest. todo listing db' rest
         \<and> set (mine shard dids) \<subseteq> set (withJob calls) \<union> set (withoutJob calls) \<union> set (mine shard rest))
    \<and> (distinct dids \<longrightarrow> set (withJob calls) \<inter> set (withoutJob calls) = {})
    \<and> (pp_Completed db' \<longrightarrow> pumpRepos shard (Some db') created' rounds' = None)"
proof (intro conjI)
  note P = pumpRepos_covers [of shard, OF assms]
  then show "result = PumpCompleted \<longrightarrow> map fst calls = mine shard dids" by auto
  show "\<exists>rest. todo listing db' rest
      \<and> set (mine shard dids) \<subseteq> set (withJob calls) \<union> set (withoutJob calls) \<union> set (mine shard rest)"
    using P unfolding jobs_split by blast
  show "distinct dids \<longrightarrow> set (withJob calls) \<inter> set (withoutJob calls) = {}"
  proof
    assume "distinct dids"
    then have "distinct (mine shard dids)" by (simp add: mine_def)
    with P have "distinct (map fst calls)" by (metis distinct_append)
    then show "set (withJob calls) \<inter> set (withoutJob calls) = {}"
      by (auto simp: withJob_def withoutJob_def distinct_map dest: inj_onD)
  qed
qed (simp add: pumpRepos_def)

definition demoListing :: "string \<Rightarrow> string list \<times> string option" where
  "demoListing c = (if c = [] then ([''did:plc:a''], Some ''p2'') else ([''did:plc:b''], None))"

definition demoProgress :: pump_progress where
  "demoProgress = \<lparr>pp_Cursor = [], pp_TotalPumped = 0, pp_Completed = False\<rparr>"

lemma demo_served: "served demoListing [] [''did:plc:a'', ''did:plc:b'']"
proof -
  have "served demoListing ''p2'' [''did:plc:b'']"
    by (rule served_last [of _ _ _ None]) (simp_all add: demoListing_def)
  then have "served demoListing [] ([''did:plc:a''] @ [''did:plc:b''])"
    by (intro served_more [of _ _ _ "''p2''"]) (simp_all add: demoListing_def)
  then show ?thesis by simp
qed

text \<open>The store fails for the first repository and the pump completes: that repository has no job, is
  counted, and is never tried again.\<close>

definition demoRounds :: "pump_round list" where
  "demoRounds = [Page [(''did:plc:a'', EnqueueError ''database is locked'')] (Some ''p2'') True True,
     Page [(''did:plc:b'', Enqueued)] None True True]"

lemma demo_failed: "failedJob (EnqueueError ''database is locked'')" "\<not> failedJob Enqueued"
  by (simp_all add: failedJob_def Contains.simps HasPrefix_def)

theorem pump_accounts_witness:
  "pumpRepos (\<lambda>_. Inr True) (Some demoProgress) True demoRounds
     = Some ([(''did:plc:a'', EnqueueError ''database is locked''), (''did:plc:b'', Enqueued)],
         \<lparr>pp_Cursor = ''p2'', pp_TotalPumped = 2, pp_Completed = True\<rparr>, PumpCompleted)
   \<and> {''did:plc:b''} \<inter> {''did:plc:a''} = {}
   \<and> pumpRepos (\<lambda>_. Inr True) (Some \<lparr>pp_Cursor = ''p2'', pp_TotalPumped = 2, pp_Completed = True\<rparr>)
       True demoRounds = None"
proof -
  have r: "pumpRepos (\<lambda>_. Inr True) (Some demoProgress) True demoRounds
     = Some ([(''did:plc:a'', EnqueueError ''database is locked''), (''did:plc:b'', Enqueued)],
         \<lparr>pp_Cursor = ''p2'', pp_TotalPumped = 2, pp_Completed = True\<rparr>, PumpCompleted)"
    by (simp add: pumpRepos_def demoProgress_def demoRounds_def saveProgress_def)
  have s: "served demoListing (pp_Cursor demoProgress) [''did:plc:a'', ''did:plc:b'']"
    using demo_served by (simp add: demoProgress_def)
  have f: "follows demoListing (pp_Cursor demoProgress) demoRounds"
    by (simp add: demoListing_def demoProgress_def demoRounds_def)
  have b: "\<exists>b. (Inr True :: go_panic + bool) = Inr b" by blast
  from r pump_accounts [OF b s f r, of True demoRounds] show ?thesis
    by (simp add: withJob_def withoutJob_def demo_failed)
qed
end
