(* ===== verification/Shutdown.thy ===== *)
theory Shutdown
  imports Ingest
begin

text \<open>
  Admission and shutdown (\<^verbatim>\<open>beginWork\<close>, \<^verbatim>\<open>StopAdmission\<close>, \<^verbatim>\<open>BeginShutdown\<close>,
  \<^verbatim>\<open>CloseContext\<close>, the cursor persistence of \<^verbatim>\<open>ingest/ingest.go\<close>) and the order in which
  \<^verbatim>\<open>run\<close> of \<^verbatim>\<open>main.go\<close> drives them. An operation that waits or calls another component
  takes the outcome as an argument and returns the list of calls it makes, in order.
\<close>

section \<open>Admission\<close>

text \<open>\<open>adm_active\<close> is the counter of the wait group.\<close>

record admission =
  adm_closed :: bool
  adm_active :: nat

definition beginWork :: "admission \<Rightarrow> bool \<times> admission" where
  "beginWork a = (if adm_closed a then (False, a) else (True, a\<lparr>adm_active := Suc (adm_active a)\<rparr>))"

text \<open>\<^verbatim>\<open>activeWork.Done()\<close> panics when the counter would become negative: \<^const>\<open>None\<close>.\<close>

definition endWork :: "admission \<Rightarrow> admission option" where
  "endWork a = (if adm_active a = 0 then None else Some (a\<lparr>adm_active := adm_active a - 1\<rparr>))"

definition StopAdmission :: "admission \<Rightarrow> admission" where
  "StopAdmission a = a\<lparr>adm_closed := True\<rparr>"

text \<open>
  \<^verbatim>\<open>waitForActiveWork\<close> returns nil only if the wait group is at zero. \<open>expired\<close> is whether the
  \<^verbatim>\<open>select\<close> picks the deadline; while the counter is not zero it can pick nothing else.
\<close>

definition waitForActiveWork :: "bool \<Rightarrow> admission \<Rightarrow> string option" where
  "waitForActiveWork expired a =
     (if adm_active a = 0 \<and> \<not> expired then None else Some ''context deadline exceeded'')"

text \<open>Callbacks come, are admitted or refused, and return; \<open>pr_running\<close> are those between the two.\<close>

record producers =
  pr_adm :: admission
  pr_running :: nat

definition initialProducers :: producers where
  "initialProducers = \<lparr>pr_adm = \<lparr>adm_closed = False, adm_active = 0\<rparr>, pr_running = 0\<rparr>"

inductive producer_step :: "producers \<Rightarrow> producers \<Rightarrow> bool" where
  Arrive: "beginWork (pr_adm s) = (ok, a) \<Longrightarrow>
    producer_step s (s\<lparr>pr_adm := a, pr_running := pr_running s + (if ok then 1 else 0)\<rparr>)"
| Return: "0 < pr_running s \<Longrightarrow> endWork (pr_adm s) = Some a \<Longrightarrow>
    producer_step s (s\<lparr>pr_adm := a, pr_running := pr_running s - 1\<rparr>)"
| Stop: "producer_step s (s\<lparr>pr_adm := StopAdmission (pr_adm s)\<rparr>)"

inductive_cases producer_stepE: "producer_step s t"

lemma producer_count_step: "producer_step s t \<Longrightarrow> pr_running s = adm_active (pr_adm s) \<Longrightarrow>
    pr_running t = adm_active (pr_adm t)"
  by (elim producer_stepE) (auto simp: beginWork_def endWork_def StopAdmission_def split: if_splits)

lemma producer_quiet_step:
  "producer_step s t \<Longrightarrow> pr_running s = 0 \<and> adm_closed (pr_adm s) \<Longrightarrow> pr_running t = 0 \<and> adm_closed (pr_adm t)"
  by (elim producer_stepE) (auto simp: beginWork_def StopAdmission_def)

lemma producer_count: "producer_step\<^sup>*\<^sup>* initialProducers s \<Longrightarrow> pr_running s = adm_active (pr_adm s)"
  by (induction rule: rtranclp_induct) (auto simp: initialProducers_def dest: producer_count_step)

lemma producer_quiet:
  "producer_step\<^sup>*\<^sup>* s t \<Longrightarrow> pr_running s = 0 \<and> adm_closed (pr_adm s) \<Longrightarrow> pr_running t = 0 \<and> adm_closed (pr_adm t)"
  by (induction rule: rtranclp_induct) (auto dest: producer_quiet_step)

section \<open>Sinks of the ingester\<close>

text \<open>A sink is its identity and which of the optional interfaces of \<^verbatim>\<open>store.go\<close> it implements.\<close>

record sink =
  sk_id :: nat
  sk_notifier :: bool
  sk_reporter :: bool
  sk_contextCloser :: bool

text \<open>The loop over the three roles that skips nil and what it has \<open>seen\<close>.\<close>

fun distinctSinks :: "nat set \<Rightarrow> sink option list \<Rightarrow> sink list" where
  "distinctSinks seen [] = []"
| "distinctSinks seen (None # sinks) = distinctSinks seen sinks"
| "distinctSinks seen (Some s # sinks) =
     (if sk_id s \<in> seen then distinctSinks seen sinks
      else s # distinctSinks (insert (sk_id s) seen) sinks)"

text \<open>The ClickHouse backend uses three sinks, the vals store one for all roles (\<^verbatim>\<open>main.go\<close>).\<close>

definition chooseSinks :: "bool \<Rightarrow> sink option list" where
  "chooseSinks vals =
     (if vals then replicate 3 (Some \<lparr>sk_id = 0, sk_notifier = True, sk_reporter = True, sk_contextCloser = True\<rparr>)
      else map (\<lambda>k. Some \<lparr>sk_id = k, sk_notifier = False, sk_reporter = False, sk_contextCloser = False\<rparr>) [0, 1, 2])"

lemma distinctSinks_distinct:
  "distinct (map sk_id (distinctSinks seen sinks)) \<and> seen \<inter> set (map sk_id (distinctSinks seen sinks)) = {}"
  by (induction seen sinks rule: distinctSinks.induct) auto

lemma distinctSinks_covers:
  "Some s \<in> set sinks \<Longrightarrow> sk_id s \<in> seen \<or> sk_id s \<in> set (map sk_id (distinctSinks seen sinks))"
  by (induction seen sinks rule: distinctSinks.induct) auto

section \<open>Persisting the cursor\<close>

text \<open>A store's answer to a save: \<^const>\<open>None\<close> is success. The custom store goes first.\<close>

definition persistCursorContext :: "(int \<Rightarrow> string option) option \<Rightarrow> (int \<Rightarrow> string option) option \<Rightarrow> int \<Rightarrow> string option" where
  "persistCursorContext cursors clickhouse cursor =
     (case cursors of
        Some save \<Rightarrow> save cursor
      | None \<Rightarrow> (case clickhouse of
          None \<Rightarrow> Some ''no clickhouse connection''
        | Some save \<Rightarrow> save cursor))"

text \<open>\<^verbatim>\<open>saveCursor\<close>: the cursor it persists, if any, and the error.\<close>

definition saveCursor :: "(int \<Rightarrow> string option) \<Rightarrow> int \<Rightarrow> int list \<times> string option" where
  "saveCursor persist cursor = (if cursor = 0 then ([], None) else ([cursor], persist cursor))"

text \<open>The periodic saver: at each tick it reads the cursor; the result is the cursors it persists.\<close>

fun cursorSaver :: "(int \<Rightarrow> string option) \<Rightarrow> int \<Rightarrow> int list \<Rightarrow> int list" where
  "cursorSaver persist lastSaved [] = []"
| "cursorSaver persist lastSaved (cursor # ticks) =
     (if cursor > 0 \<and> cursor \<noteq> lastSaved then
        cursor # cursorSaver persist (if persist cursor = None then cursor else lastSaved) ticks
      else cursorSaver persist lastSaved ticks)"

section \<open>CloseContext\<close>

datatype action =
    CloseCursorDone
  | ActStopAdmission
  | Notify nat
  | StopBackfiller
  | WaitForActiveWork
  | ReportIncomplete nat
  | CloseSink nat
  | ActSaveCursor int

text \<open>
  What the calls of a shutdown return: \<^const>\<open>None\<close> for success. \<open>ce_close\<close> is the result of closing
  a sink, under the deadline, whichever way it is closed; \<open>ce_stopBackfiller\<close> is
  \<^const>\<open>None\<close> if there is nothing to stop.
\<close>

record close_env =
  ce_cursorDoneClosed :: bool
  ce_stopBackfiller :: "string option option"
  ce_wait :: "string option"
  ce_close :: "nat \<Rightarrow> string option"
  ce_persist :: "int \<Rightarrow> string option"

datatype close_failure =
    StopBackfillerFailed string
  | ProducersActive string
  | DrainOrPersist "string list"

definition ing_BeginShutdown :: "sink option list \<Rightarrow> action list" where
  "ing_BeginShutdown sinks =
     ActStopAdmission # map (\<lambda>s. Notify (sk_id s)) (filter sk_notifier (distinctSinks {} sinks))"

definition reportUnclosedSinks :: "sink option list \<Rightarrow> action list" where
  "reportUnclosedSinks sinks = map (\<lambda>s. ReportIncomplete (sk_id s)) (filter sk_reporter (distinctSinks {} sinks))"

definition drainSinks :: "close_env \<Rightarrow> sink option list \<Rightarrow> action list \<times> string list" where
  "drainSinks e sinks =
     (map (\<lambda>s. CloseSink (sk_id s)) (distinctSinks {} sinks),
      concat (map (\<lambda>s. case ce_close e (sk_id s) of None \<Rightarrow> [] | Some err \<Rightarrow> [err]) (distinctSinks {} sinks)))"

definition finishClose :: "close_env \<Rightarrow> sink option list \<Rightarrow> int \<Rightarrow> action list \<times> close_failure option" where
  "finishClose e sinks cursor =
     (let (closes, errs) = drainSinks e sinks in
      if errs \<noteq> [] then (closes, Some (DrainOrPersist errs))
      else
        (let (saved, err) = saveCursor (ce_persist e) cursor
         in (closes @ map ActSaveCursor saved,
             map_option (\<lambda>err. DrainOrPersist [err]) err)))"

definition ing_CloseContext :: "close_env \<Rightarrow> bool \<Rightarrow> sink option list \<Rightarrow> int \<Rightarrow> action list \<times> close_failure option" where
  "ing_CloseContext e disableBackfill sinks cursor =
     (let start = (if ce_cursorDoneClosed e then [] else [CloseCursorDone]) @ ing_BeginShutdown sinks;
          (stopped, stopErr) =
            (if disableBackfill then ([], None)
             else case ce_stopBackfiller e of None \<Rightarrow> ([], None) | Some err \<Rightarrow> ([StopBackfiller], err))
      in case stopErr of
           Some err \<Rightarrow> (start @ stopped @ reportUnclosedSinks sinks, Some (StopBackfillerFailed err))
         | None \<Rightarrow>
             (case ce_wait e of
                Some err \<Rightarrow>
                  (start @ stopped @ [WaitForActiveWork] @ reportUnclosedSinks sinks, Some (ProducersActive err))
              | None \<Rightarrow>
                  (let (rest, failure) = finishClose e sinks cursor
                   in (start @ stopped @ [WaitForActiveWork] @ rest, failure))))"

lemma drain_ok:
  "snd (drainSinks e sinks) = [] \<longleftrightarrow> (\<forall>s \<in> set (distinctSinks {} sinks). ce_close e (sk_id s) = None)"
  by (auto simp: drainSinks_def split: option.splits)

lemma finishClose_saves:
  "ActSaveCursor c \<in> set (fst (finishClose e sinks cursor)) \<longleftrightarrow>
     c = cursor \<and> cursor \<noteq> 0 \<and> snd (drainSinks e sinks) = []"
  by (auto simp: finishClose_def saveCursor_def drainSinks_def split: prod.splits)

lemma start_saves_nothing [simp]:
  "ActSaveCursor c \<notin> set (ing_BeginShutdown sinks)" "ActSaveCursor c \<notin> set (reportUnclosedSinks sinks)"
  "CloseSink k \<notin> set (ing_BeginShutdown sinks)" "CloseSink k \<notin> set (reportUnclosedSinks sinks)"
  by (auto simp: ing_BeginShutdown_def reportUnclosedSinks_def)

lemma close_saves_cursor:
  assumes "ing_CloseContext e disableBackfill sinks cursor = (acts, failure)" "ActSaveCursor c \<in> set acts"
  shows "c = cursor \<and> cursor \<noteq> 0 \<and> ce_wait e = None
    \<and> (disableBackfill \<or> ce_stopBackfiller e \<in> {None, Some None})
    \<and> (\<forall>s \<in> set (distinctSinks {} sinks). ce_close e (sk_id s) = None)
    \<and> (\<exists>before. acts = before @ map (\<lambda>s. CloseSink (sk_id s)) (distinctSinks {} sinks) @ [ActSaveCursor c]
         \<and> ActSaveCursor c \<notin> set before \<and> (\<forall>k. CloseSink k \<notin> set before))"
proof -
  let ?start = "(if ce_cursorDoneClosed e then [] else [CloseCursorDone]) @ ing_BeginShutdown sinks"
  obtain stopped stopErr where st: "(stopped, stopErr) =
      (if disableBackfill then ([], None)
       else case ce_stopBackfiller e of None \<Rightarrow> ([], None) | Some err \<Rightarrow> ([StopBackfiller], err))"
    by (cases "(if disableBackfill then ([], None)
       else case ce_stopBackfiller e of None \<Rightarrow> ([], None) | Some err \<Rightarrow> ([StopBackfiller], err))") auto
  have stopped: "ActSaveCursor x \<notin> set stopped" "CloseSink k \<notin> set stopped" for x k
    using st by (auto split: if_splits option.splits)
  have cases: "stopErr = None" "ce_wait e = None"
      "acts = ?start @ stopped @ [WaitForActiveWork] @ fst (finishClose e sinks cursor)"
    using assms st [symmetric] stopped
    by (auto simp: ing_CloseContext_def Let_def split: option.splits prod.splits if_splits)
  then have "ActSaveCursor c \<in> set (fst (finishClose e sinks cursor))"
    using assms(2) stopped by (auto split: if_splits)
  then have fin: "c = cursor" "cursor \<noteq> 0" "snd (drainSinks e sinks) = []"
    by (simp_all add: finishClose_saves)
  then have "fst (finishClose e sinks cursor) =
      map (\<lambda>s. CloseSink (sk_id s)) (distinctSinks {} sinks) @ [ActSaveCursor c]"
    by (auto simp: finishClose_def saveCursor_def drainSinks_def split: prod.splits)
  then have "acts = (?start @ stopped @ [WaitForActiveWork])
      @ map (\<lambda>s. CloseSink (sk_id s)) (distinctSinks {} sinks) @ [ActSaveCursor c]"
    using cases(3) by simp
  moreover have "ActSaveCursor c \<notin> set (?start @ stopped @ [WaitForActiveWork])"
    "CloseSink k \<notin> set (?start @ stopped @ [WaitForActiveWork])" for k
    using stopped by auto
  moreover have "disableBackfill \<or> ce_stopBackfiller e \<in> {None, Some None}"
    using st cases(1) by (auto split: if_splits option.splits)
  ultimately show ?thesis using fin cases(2) drain_ok [of e sinks] by blast
qed

section \<open>The shutdown of the process\<close>

text \<open>
  What \<^verbatim>\<open>run\<close> selects: how the wait ends first, how the stop of \<^verbatim>\<open>ingester.Run\<close> ends, and
  how the close ends. \<open>CloseReturns\<close> is an answer of \<^verbatim>\<open>CloseContext\<close> before the deadline or in
  the grace second after it; \<open>early\<close> is its answer when it is called with the expired deadline.
\<close>

datatype stop_wait = RunStopped | StopSignal | StopDeadline
datatype close_wait = CloseReturns "close_failure option" | CloseSignal | GraceExpired

datatype main_action = MBeginShutdown | MCancel | MCloseContext | MExit nat

datatype run_result = RunOk | RunError | ForceQuit

definition run_shutdown :: "bool \<Rightarrow> stop_wait \<Rightarrow> close_wait \<Rightarrow> main_action list \<times> run_result" where
  "run_shutdown runExited stop close =
     (let start = [MBeginShutdown, MCancel];
          closing = (case close of
              CloseReturns failure \<Rightarrow> (start @ [MCloseContext], if failure = None then RunOk else RunError)
            | CloseSignal \<Rightarrow> (start @ [MCloseContext, MExit 1], ForceQuit)
            | GraceExpired \<Rightarrow> (start @ [MCloseContext], RunError))
      in if runExited then closing
         else case stop of
           RunStopped \<Rightarrow> closing
         | StopSignal \<Rightarrow> (start @ [MExit 1], ForceQuit)
         | StopDeadline \<Rightarrow> (start @ [MCloseContext], RunError))"

section \<open>Properties\<close>

text \<open>C16. Quiescence is final: once admission is stopped and the wait group is at zero, no callback is
  running and none ever runs again.\<close>

theorem quiescence_is_final:
  assumes "producer_step\<^sup>*\<^sup>* initialProducers s" "adm_closed (pr_adm s)"
    and "waitForActiveWork expired (pr_adm s) = None" "producer_step\<^sup>*\<^sup>* s t"
  shows "pr_running t = 0 \<and> adm_active (pr_adm t) = 0"
proof -
  have "pr_running s = 0"
    using producer_count [OF assms(1)] assms(3) by (auto simp: waitForActiveWork_def split: if_splits)
  then have "pr_running t = 0" using producer_quiet [OF assms(4)] assms(2) by blast
  moreover have "producer_step\<^sup>*\<^sup>* initialProducers t" using assms(1,4) by (rule rtranclp_trans)
  ultimately show ?thesis using producer_count by fastforce
qed

theorem quiescence_is_final_witness:
  "\<exists>t. producer_step\<^sup>*\<^sup>* initialProducers t \<and> adm_closed (pr_adm t) \<and> pr_running t = 0"
proof -
  let ?t = "initialProducers\<lparr>pr_adm := StopAdmission (pr_adm initialProducers)\<rparr>"
  have r: "producer_step\<^sup>*\<^sup>* initialProducers ?t" using Stop by (rule r_into_rtranclp)
  have c: "adm_closed (pr_adm ?t)" by (simp add: StopAdmission_def)
  have w: "waitForActiveWork False (pr_adm ?t) = None"
    by (simp add: waitForActiveWork_def StopAdmission_def initialProducers_def)
  from quiescence_is_final [OF r c w rtranclp.rtrancl_refl] r c show ?thesis by blast
qed

text \<open>C7. The cursor is advanced last and only after success: a shutdown saves a cursor only if the
  backfiller stopped, no producer is active, and every distinct sink reported a successful close; it is
  then the current cursor, saved once, after every sink was closed exactly once.\<close>

theorem cursor_saved_last:
  assumes "ing_CloseContext e disableBackfill sinks cursor = (acts, failure)" "ActSaveCursor c \<in> set acts"
  shows "c = cursor \<and> cursor \<noteq> 0 \<and> ce_wait e = None
    \<and> (disableBackfill \<or> ce_stopBackfiller e \<in> {None, Some None})
    \<and> (\<forall>s \<in> set (distinctSinks {} sinks). ce_close e (sk_id s) = None)
    \<and> (\<exists>before. acts = before @ map (\<lambda>s. CloseSink (sk_id s)) (distinctSinks {} sinks) @ [ActSaveCursor c]
         \<and> ActSaveCursor c \<notin> set before \<and> (\<forall>k. CloseSink k \<notin> set before))"
  using assms by (rule close_saves_cursor)

definition healthyEnv :: close_env where
  "healthyEnv = \<lparr>ce_cursorDoneClosed = False, ce_stopBackfiller = Some None, ce_wait = None,
     ce_close = (\<lambda>_. None), ce_persist = (\<lambda>_. None)\<rparr>"

lemma healthy_close:
  "ing_CloseContext healthyEnv False (chooseSinks True) 42 =
     ([CloseCursorDone, ActStopAdmission, Notify 0, StopBackfiller, WaitForActiveWork, CloseSink 0, ActSaveCursor 42], None)"
  by (simp add: ing_CloseContext_def healthyEnv_def chooseSinks_def ing_BeginShutdown_def finishClose_def
      drainSinks_def saveCursor_def numeral_3_eq_3)

theorem cursor_saved_last_witness:
  "ce_wait healthyEnv = None \<and> (42 :: int) \<noteq> 0"
  using cursor_saved_last [OF healthy_close, of 42] by simp

text \<open>C17. A close succeeds exactly if the backfiller stopped, the producers ended, every distinct sink
  closed without an error and the cursor, unless it is zero, was saved.\<close>

theorem close_succeeds_iff:
  "snd (ing_CloseContext e disableBackfill sinks cursor) = None \<longleftrightarrow>
     (disableBackfill \<or> ce_stopBackfiller e \<in> {None, Some None}) \<and> ce_wait e = None
   \<and> (\<forall>s \<in> set (distinctSinks {} sinks). ce_close e (sk_id s) = None)
   \<and> (cursor = 0 \<or> ce_persist e cursor = None)"
proof -
  have f: "snd (finishClose e sinks cursor) = None \<longleftrightarrow>
      snd (drainSinks e sinks) = [] \<and> (cursor = 0 \<or> ce_persist e cursor = None)"
    by (auto simp: finishClose_def saveCursor_def split: prod.splits)
  show ?thesis
    unfolding drain_ok [symmetric] using f
    by (auto simp: ing_CloseContext_def Let_def split: option.splits prod.splits if_splits)
qed

theorem close_succeeds_iff_witness:
  "snd (ing_CloseContext healthyEnv False (chooseSinks False) 42) = None"
  unfolding close_succeeds_iff by (simp add: healthyEnv_def)

text \<open>Each sink is closed at most once, also when one object plays several roles, and every sink that
  is not nil is among the sinks closed.\<close>

theorem sinks_closed_once:
  "distinct (map sk_id (distinctSinks {} sinks))
   \<and> (\<forall>s. Some s \<in> set sinks \<longrightarrow> sk_id s \<in> set (map sk_id (distinctSinks {} sinks)))"
  using distinctSinks_distinct [of "{}" sinks] distinctSinks_covers [of _ sinks "{}"] by blast

theorem sinks_closed_once_witness:
  "length (distinctSinks {} (chooseSinks True)) = 1 \<and> distinct (map sk_id (distinctSinks {} (chooseSinks False)))"
  using sinks_closed_once [of "chooseSinks False"] by (simp add: chooseSinks_def numeral_3_eq_3)

text \<open>C20. A worker without the firehose rewinds the shared cursor: it loads the cursor at its start, no
  event ever moves it, and a successful shutdown stores the value it loaded, whatever the instance that
  runs the firehose has stored meanwhile.\<close>

theorem worker_rewinds_cursor:
  assumes "0 < loaded" "ing_disableFirehose i"
    and "ing_CloseContext e disableBackfill sinks (ing_cursor (snd (Run (Inr loaded) buffered i))) = (acts, None)"
  shows "Firehose \<notin> set (fst (Run (Inr loaded) buffered i)) \<and> ActSaveCursor loaded \<in> set acts"
proof -
  have cur: "ing_cursor (snd (Run (Inr loaded) buffered i)) = loaded"
    using assms(1) by (simp add: Run_def loadCursor_def)
  with assms(3) have c: "ing_CloseContext e disableBackfill sinks loaded = (acts, None)" by simp
  then have "snd (ing_CloseContext e disableBackfill sinks loaded) = None" by simp
  then have ok: "disableBackfill \<or> ce_stopBackfiller e \<in> {None, Some None}" "ce_wait e = None"
    "snd (drainSinks e sinks) = []"
    unfolding close_succeeds_iff drain_ok by blast+
  have "ActSaveCursor loaded \<in> set (fst (finishClose e sinks loaded))"
    using ok(3) assms(1) by (simp add: finishClose_saves)
  then have "ActSaveCursor loaded \<in> set acts"
    using c ok(1,2) by (auto simp: ing_CloseContext_def Let_def split: option.splits prod.splits if_splits)
  then show ?thesis using assms(2) by (simp add: Run_def)
qed

theorem worker_rewinds_cursor_witness:
  "Firehose \<notin> set (fst (Run (Inr 42) True (demoIngester\<lparr>ing_disableFirehose := True\<rparr>)))"
  using worker_rewinds_cursor [of 42 "demoIngester\<lparr>ing_disableFirehose := True\<rparr>" healthyEnv False
      "chooseSinks True" True] healthy_close
  by (simp add: Run_def loadCursor_def)

text \<open>The process reports success only after a complete shutdown: admission stopped and the context
  cancelled first, then one close, which succeeded. A second signal never leads to a second close.\<close>

theorem run_ok_means_closed:
  "(snd (run_shutdown runExited stop close) = RunOk \<longleftrightarrow>
      close = CloseReturns None \<and> (runExited \<or> stop = RunStopped))
   \<and> take 2 (fst (run_shutdown runExited stop close)) = [MBeginShutdown, MCancel]
   \<and> length (filter (\<lambda>a. a = MCloseContext) (fst (run_shutdown runExited stop close))) \<le> 1"
  by (auto simp: run_shutdown_def Let_def split: stop_wait.splits close_wait.splits if_splits)

end
