(* ===== verification/EventStream.thy ===== *)
theory EventStream
  imports Shutdown
begin

text \<open>
  The commits of the firehose on their way through the scheduler to \<^verbatim>\<open>handleEvent\<close>
  (\<^verbatim>\<open>ingest/ingest.go\<close>) while admission may be stopped. The scheduler is third-party code; what it
  documents is that the events of one repository are handled one after the other in the order of the
  stream, and events of different repositories in any order.
\<close>

section \<open>Steps\<close>

text \<open>\<open>es_pending\<close> are the commits received and not yet handed to the callback, in stream order.\<close>

record event_stream =
  es_pending :: "commit list"
  es_adm :: admission
  es_ing :: ingester
  es_calls :: "sink_call list"
  es_handled :: "commit list"
  es_refused :: "commit list"

definition initialStream :: "ingester \<Rightarrow> commit list \<Rightarrow> event_stream" where
  "initialStream i cs = \<lparr>es_pending = cs, es_adm = \<lparr>adm_closed = False, adm_active = 0\<rparr>, es_ing = i,
     es_calls = [], es_handled = [], es_refused = []\<rparr>"

inductive stream_step :: "env \<Rightarrow> event_stream \<Rightarrow> event_stream \<Rightarrow> bool" for e where
  Handle: "es_pending s = xs @ c # ys \<Longrightarrow> \<forall>x \<in> set xs. cm_Repo x \<noteq> cm_Repo c \<Longrightarrow>
    beginWork (es_adm s) = (ok, a) \<Longrightarrow>
    handleEvent ok e clks job rr (RepoCommit c) (es_ing s) = Some (calls, i) \<Longrightarrow>
    endWork a = Some a' \<Longrightarrow>
    stream_step e s (s\<lparr>es_pending := xs @ ys, es_adm := a', es_ing := i,
      es_calls := es_calls s @ calls, es_handled := es_handled s @ [c]\<rparr>)"
| Refuse: "es_pending s = xs @ c # ys \<Longrightarrow> \<forall>x \<in> set xs. cm_Repo x \<noteq> cm_Repo c \<Longrightarrow>
    beginWork (es_adm s) = (ok, a) \<Longrightarrow>
    handleEvent ok e clks job rr (RepoCommit c) (es_ing s) = None \<Longrightarrow>
    stream_step e s (s\<lparr>es_pending := xs @ ys, es_adm := a, es_refused := es_refused s @ [c]\<rparr>)"
| StopStream: "stream_step e s (s\<lparr>es_adm := StopAdmission (es_adm s)\<rparr>)"

inductive_cases stream_stepE: "stream_step e s t"

text \<open>Every commit is still pending, handled or refused; commits are refused only once admission is
  stopped, and then no more is handled; the cursor is the number of the commit handled last.\<close>

definition stream_inv :: "ingester \<Rightarrow> commit list \<Rightarrow> event_stream \<Rightarrow> bool" where
  "stream_inv i cs s \<longleftrightarrow>
     mset cs = mset (es_pending s) + mset (es_handled s) + mset (es_refused s)
     \<and> adm_active (es_adm s) = 0
     \<and> (es_refused s \<noteq> [] \<longrightarrow> adm_closed (es_adm s))
     \<and> ing_cursor (es_ing s) = (if es_handled s = [] then ing_cursor i else cm_Seq (last (es_handled s)))"

lemma handleEvent_cursor:
  "handleEvent ok e clks job rr (RepoCommit c) i = Some (calls, i') \<Longrightarrow> ok \<and> ing_cursor i' = cm_Seq c"
  by (auto simp: handleEvent_def handleCommit_def Let_def split: if_splits)

lemma handleEvent_refused: "handleEvent ok e clks job rr evt i = None \<longleftrightarrow> \<not> ok"
  by (simp add: handleEvent_def)

lemma stream_step_inv: "stream_step e s t \<Longrightarrow> stream_inv i cs s \<Longrightarrow> stream_inv i cs t"
  by (elim stream_stepE)
     (auto simp: stream_inv_def StopAdmission_def beginWork_def endWork_def handleEvent_refused
       dest!: handleEvent_cursor split: if_splits)

lemma stream_reachable_inv:
  "(stream_step e)\<^sup>*\<^sup>* (initialStream i cs) s \<Longrightarrow> stream_inv i cs s"
  by (induction rule: rtranclp_induct) (auto simp: initialStream_def stream_inv_def dest: stream_step_inv)

section \<open>Properties\<close>

text \<open>The cursor is the sequence number of the commit whose handling began last, and no received
  commit is lost from view: each is pending, was handled, or was refused, and none is refused before
  admission stops. So with nothing pending and nothing refused every received commit was handled.\<close>

theorem stream_accounts:
  assumes "(stream_step e)\<^sup>*\<^sup>* (initialStream i cs) s"
  shows "mset cs = mset (es_pending s) + mset (es_handled s) + mset (es_refused s)
    \<and> (es_refused s \<noteq> [] \<longrightarrow> adm_closed (es_adm s))
    \<and> ing_cursor (es_ing s) = (if es_handled s = [] then ing_cursor i else cm_Seq (last (es_handled s)))"
  using stream_reachable_inv [OF assms] by (simp add: stream_inv_def)

text \<open>C12. A graceful shutdown can skip a commit for good. When a commit waits behind another event of its
  repository and a later commit of another repository has been handled, stopping admission refuses the
  waiting one, and the shutdown, which then finds no active work and healthy sinks, saves the later
  sequence number: the next start asks the relay for the events after it.\<close>

theorem refused_commit_is_skipped:
  assumes "cm_Repo c \<noteq> cm_Repo c'" "cm_Seq c < cm_Seq c'" "0 < cm_Seq c'"
  shows "\<exists>s. (stream_step e)\<^sup>*\<^sup>* (initialStream i [c, c']) s
    \<and> es_pending s = [] \<and> es_refused s = [c] \<and> es_handled s = [c']
    \<and> waitForActiveWork False (es_adm s) = None
    \<and> ing_CloseContext healthyEnv False sinks (ing_cursor (es_ing s))
      = (CloseCursorDone # ing_BeginShutdown sinks @ [StopBackfiller, WaitForActiveWork]
          @ map (\<lambda>s. CloseSink (sk_id s)) (distinctSinks {} sinks) @ [ActSaveCursor (cm_Seq c')], None)
    \<and> (case loadCursor (Inr (cm_Seq c')) i of
          Inl err \<Rightarrow> False
        | Inr j \<Rightarrow> firehoseURL j =
            ing_relayURL i @ ''/xrpc/com.atproto.sync.subscribeRepos'' @ ''?cursor='' @ FormatInt (cm_Seq c'))"
proof -
  define s1 where "s1 = (initialStream i [c, c'])\<lparr>es_pending := [c], es_ing := i\<lparr>ing_cursor := cm_Seq c'\<rparr>,
    es_calls := fst (handleCommit e (\<lambda>_. (epoch, epoch)) None None c' i), es_handled := [c']\<rparr>"
  define s2 where "s2 = s1\<lparr>es_adm := StopAdmission (es_adm s1)\<rparr>"
  define s3 where "s3 = s2\<lparr>es_pending := [], es_refused := [c]\<rparr>"
  have "stream_step e (initialStream i [c, c']) s1"
    using Handle [of "initialStream i [c, c']" "[c]" c' "[]" True "\<lparr>adm_closed = False, adm_active = 1\<rparr>" e
        "\<lambda>_. (epoch, epoch)" None None "fst (handleCommit e (\<lambda>_. (epoch, epoch)) None None c' i)"
        "i\<lparr>ing_cursor := cm_Seq c'\<rparr>" "\<lparr>adm_closed = False, adm_active = 0\<rparr>"] assms(1)
    by (simp add: s1_def initialStream_def beginWork_def endWork_def handleEvent_def handleCommit_def Let_def)
  moreover have "stream_step e s1 s2" unfolding s2_def by (rule StopStream)
  moreover have "stream_step e s2 s3"
    using Refuse [of s2 "[]" c "[]" False "es_adm s2" e "\<lambda>_. (epoch, epoch)" None None]
    by (simp add: s3_def s2_def s1_def initialStream_def beginWork_def StopAdmission_def handleEvent_def)
  ultimately have run: "(stream_step e)\<^sup>*\<^sup>* (initialStream i [c, c']) s3"
    by (meson converse_rtranclp_into_rtranclp rtranclp.rtrancl_refl)
  have cur: "ing_cursor (es_ing s3) = cm_Seq c'" by (simp add: s3_def s2_def s1_def)
  have close: "ing_CloseContext healthyEnv False sinks (cm_Seq c')
      = (CloseCursorDone # ing_BeginShutdown sinks @ [StopBackfiller, WaitForActiveWork]
          @ map (\<lambda>s. CloseSink (sk_id s)) (distinctSinks {} sinks) @ [ActSaveCursor (cm_Seq c')], None)"
    using assms(3) by (simp add: ing_CloseContext_def healthyEnv_def finishClose_def drainSinks_def saveCursor_def)
  have url: "case loadCursor (Inr (cm_Seq c')) i of
          Inl err \<Rightarrow> False
        | Inr j \<Rightarrow> firehoseURL j =
            ing_relayURL i @ ''/xrpc/com.atproto.sync.subscribeRepos'' @ ''?cursor='' @ FormatInt (cm_Seq c')"
    using assms(3) by (simp add: loadCursor_def firehoseURL_def Let_def)
  show ?thesis
    using run cur close url
    by (intro exI [of _ s3])
       (simp add: s3_def s2_def s1_def initialStream_def waitForActiveWork_def StopAdmission_def)
qed

definition laterCommit :: commit where
  "laterCommit = \<lparr>cm_Repo = ''did:plc:b'', cm_Seq = 6, cm_Ops = []\<rparr>"

theorem refused_commit_is_skipped_witness:
  "\<exists>s. (stream_step demoEnv)\<^sup>*\<^sup>* (initialStream demoIngester [demoCommit, laterCommit]) s
    \<and> es_refused s = [demoCommit]
    \<and> last (fst (ing_CloseContext healthyEnv False (chooseSinks True) (ing_cursor (es_ing s)))) = ActSaveCursor 6"
proof -
  have "cm_Repo demoCommit \<noteq> cm_Repo laterCommit" "cm_Seq demoCommit < cm_Seq laterCommit" "0 < cm_Seq laterCommit"
    by (simp_all add: demoCommit_def laterCommit_def)
  from refused_commit_is_skipped [OF this, of demoEnv demoIngester "chooseSinks True"]
  show ?thesis by (auto simp: laterCommit_def)
qed

theorem stream_accounts_witness:
  "\<exists>s. (stream_step demoEnv)\<^sup>*\<^sup>* (initialStream demoIngester [demoCommit]) s \<and> es_pending s = [demoCommit]
    \<and> mset [demoCommit] = mset (es_pending s) + mset (es_handled s) + mset (es_refused s)"
proof -
  have "(stream_step demoEnv)\<^sup>*\<^sup>* (initialStream demoIngester [demoCommit]) (initialStream demoIngester [demoCommit])"
    by simp
  note P = this stream_accounts [OF this]
  then show ?thesis by (intro exI [of _ "initialStream demoIngester [demoCommit]"]) (simp add: initialStream_def)
qed

end
