(* ===== verification/Connect.thy ===== *)
theory Connect
  imports GoTime
begin

text \<open>
  The ClickHouse connections of \<^verbatim>\<open>ingest/connect.go\<close> and \<^verbatim>\<open>ingest/bootstrap.go\<close>. The driver is
  third-party code and a parameter: a function that performs a call in a state of the outside world and
  answers whether it succeeded. The operations are the calls the code makes, in order, with its early
  returns and deferred closes.
\<close>

section \<open>Options and calls\<close>

record conn_options =
  co_Addr :: string
  co_Database :: string
  co_Username :: string
  co_Password :: string
  co_Settings :: "(string \<times> int) list"
  co_DialTimeout :: int
  co_MaxOpenConns :: nat
  co_MaxIdleConns :: nat
  co_ConnMaxLifetime :: int
  co_RoundRobin :: bool
  co_BlockBufferSize :: nat
  co_MaxCompressionBuffer :: nat

datatype db_call =
    OpenConn conn_options
  | PingConn string
  | ExecConn string string
  | CloseConn string

type_synonym 'c driver = "db_call \<Rightarrow> 'c \<Rightarrow> bool \<times> 'c"

text \<open>\<^verbatim>\<open>defer conn.Close()\<close>: the answer is dropped.\<close>

definition closing :: "'c driver \<Rightarrow> string \<Rightarrow> 'r \<times> 'c \<Rightarrow> 'r \<times> 'c" where
  "closing drv addr rc = (fst rc, snd (drv (CloseConn addr) (snd rc)))"

section \<open>Connections of the process\<close>

definition nativeOptions :: "string \<Rightarrow> string \<Rightarrow> string \<Rightarrow> conn_options" where
  "nativeOptions addr user password =
     \<lparr>co_Addr = addr, co_Database = ''attie'', co_Username = user, co_Password = password,
      co_Settings = [(''max_execution_time'', 300), (''max_partitions_per_insert_block'', 0)],
      co_DialTimeout = 30 * Second, co_MaxOpenConns = 100, co_MaxIdleConns = 50,
      co_ConnMaxLifetime = Hour, co_RoundRobin = True, co_BlockBufferSize = 10,
      co_MaxCompressionBuffer = 10 * 1024 * 1024\<rparr>"

definition sqlOptions :: "string \<Rightarrow> string \<Rightarrow> string \<Rightarrow> conn_options" where
  "sqlOptions addr user password =
     \<lparr>co_Addr = addr, co_Database = ''attie'', co_Username = user, co_Password = password,
      co_Settings = [(''max_execution_time'', 300)],
      co_DialTimeout = 30 * Second, co_MaxOpenConns = 100, co_MaxIdleConns = 100,
      co_ConnMaxLifetime = Hour, co_RoundRobin = False, co_BlockBufferSize = 0,
      co_MaxCompressionBuffer = 0\<rparr>"

text \<open>The bootstrap sets only the address, the user and the timeout; Go's zero values are the rest.\<close>

definition adminOptions :: "string \<Rightarrow> string \<Rightarrow> string \<Rightarrow> conn_options" where
  "adminOptions addr user password =
     \<lparr>co_Addr = addr, co_Database = [], co_Username = user, co_Password = password, co_Settings = [],
      co_DialTimeout = 10 * Second, co_MaxOpenConns = 0, co_MaxIdleConns = 0, co_ConnMaxLifetime = 0,
      co_RoundRobin = False, co_BlockBufferSize = 0, co_MaxCompressionBuffer = 0\<rparr>"

datatype connect_error = OpenFailed | PingFailed

definition pinged :: "'c driver \<Rightarrow> string \<Rightarrow> 'c \<Rightarrow> (connect_error + string) \<times> 'c" where
  "pinged drv addr c =
     (let (ok, c) = drv (PingConn addr) c in (if ok then Inr addr else Inl PingFailed, c))"

definition ConnectClickHouse :: "'c driver \<Rightarrow> string \<Rightarrow> string \<Rightarrow> string \<Rightarrow> 'c \<Rightarrow> (connect_error + string) \<times> 'c" where
  "ConnectClickHouse drv addr user password c =
     (let (ok, c) = drv (OpenConn (nativeOptions addr user password)) c
      in if ok then pinged drv addr c else (Inl OpenFailed, c))"

text \<open>\<^verbatim>\<open>clickhouse.OpenDB\<close> has no error result; its answer is dropped.\<close>

definition ConnectClickHouseSQL :: "'c driver \<Rightarrow> string \<Rightarrow> string \<Rightarrow> string \<Rightarrow> 'c \<Rightarrow> (connect_error + string) \<times> 'c" where
  "ConnectClickHouseSQL drv addr user password c =
     pinged drv addr (snd (drv (OpenConn (sqlOptions addr user password)) c))"

section \<open>What was called\<close>

text \<open>A driver that also records the calls and their answers.\<close>

type_synonym 'c traced = "'c \<times> (db_call \<times> bool) list"

definition tracing :: "'c driver \<Rightarrow> 'c traced driver" where
  "tracing drv call s = (let (ok, c) = drv call (fst s) in (ok, (c, snd s @ [(call, ok)])))"

lemma tracing_apply:
  "tracing drv call s = (fst (drv call (fst s)), snd (drv call (fst s)), snd s @ [(call, fst (drv call (fst s)))])"
  by (simp add: tracing_def split_beta)

definition opened :: "(db_call \<times> bool) list \<Rightarrow> nat" where
  "opened log = length (filter (\<lambda>(call, ok). case call of OpenConn _ \<Rightarrow> ok | _ \<Rightarrow> False) log)"

definition closed :: "(db_call \<times> bool) list \<Rightarrow> nat" where
  "closed log = length (filter (\<lambda>(call, ok). case call of CloseConn _ \<Rightarrow> True | _ \<Rightarrow> False) log)"

lemma opened_append [simp]: "opened (xs @ ys) = opened xs + opened ys"
  by (simp add: opened_def)

lemma closed_append [simp]: "closed (xs @ ys) = closed xs + closed ys"
  by (simp add: closed_def)

lemma opened_Cons [simp]:
  "opened ((OpenConn opts, ok) # log) = (if ok then 1 else 0) + opened log"
  "opened ((PingConn a, ok) # log) = opened log" "opened ((ExecConn a b, ok) # log) = opened log"
  "opened ((CloseConn a, ok) # log) = opened log" "opened [] = 0"
  by (simp_all add: opened_def)

lemma closed_Cons [simp]:
  "closed ((OpenConn opts, ok) # log) = closed log"
  "closed ((PingConn a, ok) # log) = closed log" "closed ((ExecConn a b, ok) # log) = closed log"
  "closed ((CloseConn a, ok) # log) = Suc (closed log)" "closed [] = 0"
  by (simp_all add: closed_def)

text \<open>A connection that opens and does not answer the ping is returned as an error and stays open.\<close>

lemma connect_leaves_open:
  "ConnectClickHouse (tracing drv) addr user password (c, []) = (r, (c', log)) \<Longrightarrow>
     closed log = 0 \<and> opened log = (if r = Inl OpenFailed then 0 else 1)"
  by (auto simp: ConnectClickHouse_def pinged_def tracing_def Let_def opened_def closed_def
      split: prod.splits if_splits)

end
