(* ===== verification/Bootstrap.thy ===== *)
theory Bootstrap
  imports Connect
begin

text \<open>
  Schema bootstrap (\<^verbatim>\<open>ingest/bootstrap.go\<close>): the split of the schema into statements, the
  statements run on each node, and the quoting of user names and passwords; and the choice of the
  backfill database (\<^verbatim>\<open>ingest/bfstore.go\<close>). The ClickHouse driver is the parameter of theory
  Connect; the database behind \<^verbatim>\<open>gorm\<close> is another one.
\<close>

section \<open>Statements\<close>

definition hasContent :: "string \<Rightarrow> bool" where
  "hasContent s = list_ex (\<lambda>line. TrimSpace line \<noteq> [] \<and> \<not> HasPrefix (TrimSpace line) ''--'') (Split s CHR 0x0A)"

fun collectStatements :: "string list \<Rightarrow> string list" where
  "collectStatements [] = []"
| "collectStatements (s # raw) =
     (let s = TrimSpace s in
      if s = [] then collectStatements raw
      else if hasContent s then s # collectStatements raw
      else collectStatements raw)"

definition splitSQL :: "string \<Rightarrow> string list" where
  "splitSQL sql = collectStatements (Split sql CHR '';'')"

definition escapeSingleQuotes :: "string \<Rightarrow> string" where
  "escapeSingleQuotes s = ReplaceAllByte s CHR 0x27 [CHR 0x5C, CHR 0x27]"

definition sqlQuoted :: "string \<Rightarrow> string" where
  "sqlQuoted s = [CHR 0x27] @ escapeSingleQuotes s @ [CHR 0x27]"

definition readonlyStatements :: "string \<Rightarrow> string \<Rightarrow> string list" where
  "readonlyStatements user password =
     [''CREATE USER IF NOT EXISTS '' @ sqlQuoted user @ '' IDENTIFIED BY '' @ sqlQuoted password,
      ''ALTER USER '' @ sqlQuoted user @ '' IDENTIFIED BY '' @ sqlQuoted password,
      ''GRANT SELECT ON attie.* TO '' @ sqlQuoted user]"

section \<open>Running them\<close>

datatype bootstrap_error =
    NoStatements
  | CreateDatabaseFailed string
  | ConnectFailed
  | StatementFailed string

definition execOnNode :: "'c driver \<Rightarrow> string \<Rightarrow> string \<Rightarrow> string \<Rightarrow> string \<Rightarrow> 'c \<Rightarrow> bool \<times> 'c" where
  "execOnNode drv addr user password stmt c =
     (let (ok, c) = drv (OpenConn (adminOptions addr user password)) c
      in if \<not> ok then (False, c) else closing drv addr (drv (ExecConn addr stmt) c))"

fun createOnNodes :: "'c driver \<Rightarrow> string \<Rightarrow> string \<Rightarrow> string \<Rightarrow> string list \<Rightarrow> 'c \<Rightarrow> bootstrap_error option \<times> 'c" where
  "createOnNodes drv user password stmt [] c = (None, c)"
| "createOnNodes drv user password stmt (node # nodes) c =
     (let (ok, c) = execOnNode drv node user password stmt c
      in if ok then createOnNodes drv user password stmt nodes c else (Some (CreateDatabaseFailed node), c))"

fun execStatements :: "'c driver \<Rightarrow> string \<Rightarrow> string list \<Rightarrow> 'c \<Rightarrow> bootstrap_error option \<times> 'c" where
  "execStatements drv addr [] c = (None, c)"
| "execStatements drv addr (stmt # stmts) c =
     (let (ok, c) = drv (ExecConn addr stmt) c
      in if ok then execStatements drv addr stmts c else (Some (StatementFailed stmt), c))"

text \<open>Connect with the credentials of the bootstrap, run the statements, close.\<close>

definition withAdmin :: "'c driver \<Rightarrow> string \<Rightarrow> string \<Rightarrow> string \<Rightarrow> string list \<Rightarrow> 'c \<Rightarrow> bootstrap_error option \<times> 'c" where
  "withAdmin drv addr user password stmts c =
     (let (ok, c) = drv (OpenConn (adminOptions addr user password)) c
      in if \<not> ok then (Some ConnectFailed, c) else closing drv addr (execStatements drv addr stmts c))"

definition Bootstrap :: "'c driver \<Rightarrow> string \<Rightarrow> string \<Rightarrow> string \<Rightarrow> string \<Rightarrow> string list \<Rightarrow> 'c
    \<Rightarrow> bootstrap_error option \<times> 'c" where
  "Bootstrap drv schema addr user password nodes c =
     (let stmts = splitSQL schema in
      if stmts = [] then (Some NoStatements, c)
      else
        (let targets = (if nodes = [] then [addr] else nodes);
             (err, c) = createOnNodes drv user password (hd stmts) targets c
         in if err \<noteq> None then (err, c) else withAdmin drv addr user password (tl stmts) c))"

definition BootstrapReadonlyUser :: "'c driver \<Rightarrow> string \<Rightarrow> string \<Rightarrow> string \<Rightarrow> string \<Rightarrow> string \<Rightarrow> 'c
    \<Rightarrow> bootstrap_error option \<times> 'c" where
  "BootstrapReadonlyUser drv addr adminUser adminPassword readonlyUser readonlyPassword c =
     withAdmin drv addr adminUser adminPassword (readonlyStatements readonlyUser readonlyPassword) c"

section \<open>The backfill database\<close>

definition isPostgresURI :: "string \<Rightarrow> bool" where
  "isPostgresURI s \<longleftrightarrow> HasPrefix s ''postgres://'' \<or> HasPrefix s ''postgresql://''"

datatype dialect = Postgres string | Sqlite string

definition backfillDialect :: "string \<Rightarrow> dialect" where
  "backfillDialect connStr =
     (if isPostgresURI connStr then Postgres connStr
      else Sqlite (connStr @ ''?_journal_mode=WAL&_busy_timeout=30000&cache=shared&_txlock=immediate''))"

text \<open>The calls to \<^verbatim>\<open>gorm\<close>; the answers to the two pragmas are dropped.\<close>

datatype gorm_call = GormOpen dialect | GormExec string | GormMigrate

datatype store_error = OpenBackfillFailed | MigrateFailed

definition NewBackfillStore :: "(gorm_call \<Rightarrow> 'd \<Rightarrow> bool \<times> 'd) \<Rightarrow> string \<Rightarrow> 'd \<Rightarrow> store_error option \<times> 'd" where
  "NewBackfillStore gorm connStr d =
     (let (ok, d) = gorm (GormOpen (backfillDialect connStr)) d;
          d = (if \<not> isPostgresURI connStr \<and> ok
               then snd (gorm (GormExec ''PRAGMA cache_size=-64000'')
                      (snd (gorm (GormExec ''PRAGMA synchronous=NORMAL'') d)))
               else d)
      in if \<not> ok then (Some OpenBackfillFailed, d)
         else (let (ok, d) = gorm GormMigrate d in (if ok then None else Some MigrateFailed, d)))"

section \<open>How ClickHouse reads a quoted string\<close>

text \<open>After the opening quote: a backslash takes the next byte as it is, a quote ends the literal. The
  result is the value and what follows.\<close>

fun readLiteral :: "string \<Rightarrow> (string \<times> string) option" where
  "readLiteral [] = None"
| "readLiteral (x # s) =
     (if x = CHR 0x27 then Some ([], s)
      else if x = CHR 0x5C then
        (case s of [] \<Rightarrow> None | y # t \<Rightarrow> map_option (\<lambda>(v, r). (y # v, r)) (readLiteral t))
      else map_option (\<lambda>(v, r). (x # v, r)) (readLiteral s))"

section \<open>Lemmas\<close>

lemma Split_append: "Split (a @ c # b) c = Split a c @ Split b c"
proof (induction a)
  case (Cons x a)
  then show ?case by (auto split: list.splits)
qed simp

lemma collectStatements_append [simp]:
  "collectStatements (xs @ ys) = collectStatements xs @ collectStatements ys"
  by (induction xs) (simp_all add: Let_def)

lemma collectStatements_set:
  "s \<in> set (collectStatements raw) \<Longrightarrow> s \<noteq> [] \<and> hasContent s \<and> s \<in> TrimSpace ` set raw"
  by (induction raw) (auto simp: Let_def split: if_splits)

lemma escape_Cons:
  "escapeSingleQuotes (x # s) = (if x = CHR 0x27 then [CHR 0x5C, CHR 0x27] else [x]) @ escapeSingleQuotes s"
  by (simp add: escapeSingleQuotes_def)

text \<open>The state after a list of calls, whatever they answer.\<close>

definition runCalls :: "'c driver \<Rightarrow> db_call list \<Rightarrow> 'c \<Rightarrow> 'c" where
  "runCalls drv calls c = fold (\<lambda>call c. snd (drv call c)) calls c"

lemma runCalls_simps [simp]:
  "runCalls drv [] c = c" "runCalls drv (call # calls) c = runCalls drv calls (snd (drv call c))"
  "runCalls drv (xs @ ys) c = runCalls drv ys (runCalls drv xs c)"
  by (simp_all add: runCalls_def)

definition onNode :: "string \<Rightarrow> string \<Rightarrow> string list \<Rightarrow> string \<Rightarrow> db_call list" where
  "onNode user password stmts addr =
     OpenConn (adminOptions addr user password) # map (ExecConn addr) stmts @ [CloseConn addr]"

lemma createOnNodes_all:
  "createOnNodes drv user password stmt nodes c = (None, c') \<Longrightarrow>
     c' = runCalls drv (concat (map (onNode user password [stmt]) nodes)) c"
  by (induction nodes arbitrary: c)
     (auto simp: execOnNode_def closing_def onNode_def split: prod.splits if_splits)

lemma execStatements_all:
  "execStatements drv addr stmts c = (None, c') \<Longrightarrow> c' = runCalls drv (map (ExecConn addr) stmts) c"
  by (induction stmts arbitrary: c) (auto split: prod.splits if_splits)

lemma withAdmin_all:
  assumes "withAdmin drv addr user password stmts c = (None, c')"
  shows "c' = runCalls drv (onNode user password stmts addr) c"
proof -
  obtain c1 where c1: "drv (OpenConn (adminOptions addr user password)) c = (True, c1)"
    "closing drv addr (execStatements drv addr stmts c1) = (None, c')"
    using assms by (auto simp: withAdmin_def split: prod.splits if_splits)
  moreover obtain c2 where "execStatements drv addr stmts c1 = (None, c2)" "c' = snd (drv (CloseConn addr) c2)"
    using c1(2) by (cases "execStatements drv addr stmts c1") (simp add: closing_def)
  ultimately show ?thesis using execStatements_all by (fastforce simp: onNode_def)
qed

section \<open>Properties\<close>

text \<open>C36. A bootstrap without error has made exactly these calls, in order: on every node (or on the
  primary if no nodes are given) it connects with the admin credentials, runs the first statement of the
  schema and closes; then it connects to the primary, runs the other statements and closes.\<close>

theorem bootstrap_runs_schema:
  assumes "Bootstrap drv schema addr user password nodes c = (None, c')"
  shows "splitSQL schema \<noteq> [] \<and> c' = runCalls drv
     (concat (map (onNode user password [hd (splitSQL schema)]) (if nodes = [] then [addr] else nodes))
      @ onNode user password (tl (splitSQL schema)) addr) c"
proof -
  let ?targets = "if nodes = [] then [addr] else nodes"
  obtain c1 where c1: "createOnNodes drv user password (hd (splitSQL schema)) ?targets c = (None, c1)"
    "withAdmin drv addr user password (tl (splitSQL schema)) c1 = (None, c')" "splitSQL schema \<noteq> []"
    using assms by (auto simp: Bootstrap_def Let_def split: prod.splits if_splits)
  show ?thesis unfolding runCalls_simps using c1(3) createOnNodes_all [OF c1(1)] withAdmin_all [OF c1(2)] by simp
qed

definition logRun :: "db_call list driver" where
  "logRun call c = (True, c @ [call])"

theorem bootstrap_runs_schema_witness:
  "snd (Bootstrap logRun ''CREATE DATABASE d; CREATE TABLE t;'' ''a:1'' ''u'' ''p'' [''n1'', ''n2''] [])
   = [OpenConn (adminOptions ''n1'' ''u'' ''p''), ExecConn ''n1'' ''CREATE DATABASE d'', CloseConn ''n1'',
      OpenConn (adminOptions ''n2'' ''u'' ''p''), ExecConn ''n2'' ''CREATE DATABASE d'', CloseConn ''n2'',
      OpenConn (adminOptions ''a:1'' ''u'' ''p''), ExecConn ''a:1'' ''CREATE TABLE t'', CloseConn ''a:1'']"
proof -
  let ?b = "Bootstrap logRun ''CREATE DATABASE d; CREATE TABLE t;'' ''a:1'' ''u'' ''p'' [''n1'', ''n2''] []"
  have s: "splitSQL ''CREATE DATABASE d; CREATE TABLE t;'' = [''CREATE DATABASE d'', ''CREATE TABLE t'']"
    by code_simp
  have "fst ?b = None"
    by (simp add: Bootstrap_def s logRun_def execOnNode_def withAdmin_def closing_def)
  then have b: "?b = (None, snd ?b)" by (metis prod.collapse)
  from bootstrap_runs_schema [OF b] show ?thesis by (simp add: s onNode_def logRun_def)
qed

text \<open>The bootstrap leaves no connection behind: whatever fails, the connections that opened are
  closed, as many times as they opened. The connection of the process is the exception: it stays open,
  also when the ping fails and the error is all that is returned.\<close>

definition balanced :: "'c traced \<Rightarrow> bool" where
  "balanced s \<longleftrightarrow> opened (snd s) = closed (snd s)"

lemma execOnNode_balanced:
  "balanced s \<Longrightarrow> balanced (snd (execOnNode (tracing drv) addr user password stmt s))"
  by (simp add: execOnNode_def closing_def balanced_def tracing_apply Let_def)

lemma createOnNodes_balanced:
  "balanced s \<Longrightarrow> balanced (snd (createOnNodes (tracing drv) user password stmt nodes s))"
  by (induction nodes arbitrary: s)
     (simp_all add: Let_def split_beta execOnNode_balanced)

lemma execStatements_log:
  "\<exists>log. snd (snd (execStatements (tracing drv) addr stmts s)) = snd s @ log \<and> opened log = 0 \<and> closed log = 0"
proof (induction stmts arbitrary: s)
  case (Cons stmt stmts)
  let ?ok = "fst (drv (ExecConn addr stmt) (fst s))"
  let ?s = "(snd (drv (ExecConn addr stmt) (fst s)), snd s @ [(ExecConn addr stmt, ?ok)])"
  obtain log where log: "snd (snd (execStatements (tracing drv) addr stmts ?s)) = snd ?s @ log" "opened log = 0" "closed log = 0"
    using Cons.IH [of ?s] by blast
  have "opened ((ExecConn addr stmt, ?ok) # log) = 0" "closed ((ExecConn addr stmt, ?ok) # log) = 0"
    using log(2,3) by simp_all
  moreover have first: "tracing drv (ExecConn addr stmt) s = (?ok, ?s)" by (simp add: tracing_apply)
  ultimately have "?ok \<Longrightarrow> ?case"
    using log(1) by (intro exI [of _ "(ExecConn addr stmt, ?ok) # log"]) simp
  moreover have "\<not> ?ok \<Longrightarrow> ?case"
    using first by (intro exI [of _ "[(ExecConn addr stmt, ?ok)]"]) simp
  ultimately show ?case by blast
qed simp

lemma withAdmin_balanced:
  assumes "balanced s"
  shows "balanced (snd (withAdmin (tracing drv) addr user password stmts s))"
proof (cases "fst (drv (OpenConn (adminOptions addr user password)) (fst s))")
  case True
  let ?s = "(snd (drv (OpenConn (adminOptions addr user password)) (fst s)),
             snd s @ [(OpenConn (adminOptions addr user password), True)])"
  obtain log where "snd (snd (execStatements (tracing drv) addr stmts ?s)) = snd ?s @ log"
    "opened log = 0" "closed log = 0"
    using execStatements_log [of drv addr stmts ?s] by blast
  moreover have "tracing drv (OpenConn (adminOptions addr user password)) s = (True, ?s)"
    using True by (simp add: tracing_apply)
  moreover have "snd (tracing drv (CloseConn addr) t) = (snd (drv (CloseConn addr) (fst t)),
      snd t @ [(CloseConn addr, fst (drv (CloseConn addr) (fst t)))])" for t
    by (simp add: tracing_apply)
  ultimately show ?thesis
    using assms by (simp add: withAdmin_def closing_def balanced_def)
qed (use assms in \<open>simp add: withAdmin_def balanced_def tracing_apply\<close>)

theorem bootstrap_closes_connections:
  "balanced (snd (Bootstrap (tracing drv) schema addr user password nodes (c, [])))
   \<and> balanced (snd (BootstrapReadonlyUser (tracing drv) addr user password readonlyUser readonlyPassword (c, [])))
   \<and> (let (r, s) = ConnectClickHouse (tracing drv) addr user password (c, [])
      in closed (snd s) = 0 \<and> opened (snd s) = (if r = Inl OpenFailed then 0 else 1))"
proof -
  have start: "balanced (c, [])" by (simp add: balanced_def)
  have "balanced (snd (Bootstrap (tracing drv) schema addr user password nodes (c, [])))"
    by (simp add: Bootstrap_def Let_def split_beta start withAdmin_balanced createOnNodes_balanced)
  moreover have "balanced (snd (BootstrapReadonlyUser (tracing drv) addr user password readonlyUser readonlyPassword (c, [])))"
    by (simp add: BootstrapReadonlyUser_def start withAdmin_balanced)
  moreover obtain r c' log where "ConnectClickHouse (tracing drv) addr user password (c, []) = (r, c', log)"
    by (rule prod_cases3)
  moreover from this have "closed log = 0 \<and> opened log = (if r = Inl OpenFailed then 0 else 1)"
    by (rule connect_leaves_open)
  ultimately show ?thesis by simp
qed

text \<open>Statements are found independently of what follows the semicolon that ends them; none is empty
  and none consists of comments only.\<close>

theorem splitSQL_statements:
  "splitSQL (a @ CHR '';'' # b) = splitSQL a @ splitSQL b
   \<and> list_all (\<lambda>s. s \<noteq> [] \<and> hasContent s) (splitSQL a)"
  using collectStatements_set [of _ "Split a CHR '';''"]
  by (auto simp: splitSQL_def Split_append list_all_iff)

text \<open>The quoting is right for names and passwords without backslashes: ClickHouse reads the literal
  back as the same string, whatever follows it.\<close>

theorem escape_roundtrip:
  assumes "CHR 0x5C \<notin> set s"
  shows "readLiteral (escapeSingleQuotes s @ CHR 0x27 # rest) = Some (s, rest)"
  using assms
proof (induction s)
  case (Cons x s)
  then show ?case by (auto simp: escape_Cons)
qed (simp add: escapeSingleQuotes_def)

theorem escape_roundtrip_witness:
  "readLiteral (escapeSingleQuotes [CHR ''o'', CHR 0x27, CHR ''b''] @ CHR 0x27 # '' IDENTIFIED'')
   = Some ([CHR ''o'', CHR 0x27, CHR ''b''], '' IDENTIFIED'')"
  by (rule escape_roundtrip) simp

text \<open>A user name that ends in a backslash swallows the closing quote: ClickHouse reads the rest of the
  statement, up to the quote that opens the password, as part of the name, and the password as SQL.\<close>

theorem escape_backslash:
  assumes "CHR 0x5C \<notin> set middle" "CHR 0x27 \<notin> set middle"
  shows "readLiteral (escapeSingleQuotes [CHR ''u'', CHR 0x5C] @ CHR 0x27 # middle @ CHR 0x27 # password)
     = Some ([CHR ''u'', CHR 0x27] @ middle, password)"
proof -
  have "readLiteral (middle @ CHR 0x27 # password) = Some (middle, password)"
    using assms by (induction middle) auto
  then show ?thesis by (simp add: escape_Cons) (simp add: escapeSingleQuotes_def)
qed

theorem escape_backslash_witness:
  "readLiteral (escapeSingleQuotes [CHR ''u'', CHR 0x5C] @ CHR 0x27 # '' IDENTIFIED BY '' @ CHR 0x27 # ''DROP'')
     = Some ([CHR ''u'', CHR 0x27] @ '' IDENTIFIED BY '', ''DROP'')"
  by (rule escape_backslash) simp_all

end
