(* ===== verification/CommandLine.thy ===== *)
theory CommandLine
  imports GoTime
begin

text \<open>
  The flags that \<^verbatim>\<open>main\<close> declares and what \<^verbatim>\<open>run\<close> reads of them (\<^verbatim>\<open>main.go\<close>). The command
  line package is third-party code and a parameter: its accessors, each from a flag's name to a value.
\<close>

section \<open>Declared flags\<close>

text \<open>The type of a flag with its default \<^verbatim>\<open>Value\<close>; Go's zero value where none is given.\<close>

datatype flag_value =
    StringFlag string
  | BoolFlag bool
  | IntFlag int
  | DurationFlag int
  | StringSliceFlag "string list"

record flag =
  fl_Name :: string
  fl_Value :: flag_value
  fl_Source :: string

definition flag :: "string \<Rightarrow> flag_value \<Rightarrow> string \<Rightarrow> flag" where
  "flag name v env = \<lparr>fl_Name = name, fl_Value = v, fl_Source = env\<rparr>"

definition mainFlags :: "flag list" where
  "mainFlags =
     [flag ''clickhouse'' (StringFlag ''localhost:9000'') ''ATTIE_CLICKHOUSE'',
      flag ''vals'' (StringFlag []) ''ATTIE_VALS'',
      flag ''disable-backfill'' (BoolFlag False) ''ATTIE_DISABLE_BACKFILL'',
      flag ''shard'' (StringFlag []) ''ATTIE_SHARD'',
      flag ''disable-firehose'' (BoolFlag False) ''ATTIE_DISABLE_FIREHOSE'',
      flag ''clickhouse-bootstrap-nodes'' (StringSliceFlag []) ''ATTIE_CLICKHOUSE_BOOTSTRAP_NODES'',
      flag ''backfill-db'' (StringFlag ''backfill.db'') ''ATTIE_BACKFILL_DB'',
      flag ''relay'' (StringFlag []) ''ATTIE_RELAY'',
      flag ''parallel-backfills'' (IntFlag 0) ''ATTIE_PARALLEL_BACKFILLS'',
      flag ''parallel-downloads'' (IntFlag 0) ''ATTIE_PARALLEL_DOWNLOADS'',
      flag ''metrics-addr'' (StringFlag '':9090'') ''ATTIE_METRICS_ADDR'',
      flag ''clickhouse-user'' (StringFlag ''attie'') ''ATTIE_CLICKHOUSE_USER'',
      flag ''clickhouse-password'' (StringFlag ''attie'') ''ATTIE_CLICKHOUSE_PASSWORD'',
      flag ''clickhouse-readonly-user'' (StringFlag ''attie-readonly'') ''ATTIE_CLICKHOUSE_READONLY_USER'',
      flag ''clickhouse-readonly-password'' (StringFlag []) ''ATTIE_CLICKHOUSE_READONLY_PASSWORD'',
      flag ''log-file'' (StringFlag []) ''ATTIE_LOG_FILE'',
      flag ''shutdown-timeout'' (DurationFlag (30 * Second)) ''ATTIE_SHUTDOWN_TIMEOUT'']"

section \<open>What run reads\<close>

text \<open>The accessors of \<^verbatim>\<open>cli.Command\<close>.\<close>

record cli =
  cli_String :: "string \<Rightarrow> string"
  cli_Bool :: "string \<Rightarrow> bool"
  cli_Int :: "string \<Rightarrow> int"
  cli_Duration :: "string \<Rightarrow> int"
  cli_StringSlice :: "string \<Rightarrow> string list"

record options =
  opt_logFile :: string
  opt_clickhouse :: string
  opt_user :: string
  opt_password :: string
  opt_readonlyUser :: string
  opt_readonlyPassword :: string
  opt_backfillDB :: string
  opt_relay :: string
  opt_parallelBackfills :: int
  opt_parallelDownloads :: int
  opt_metricsAddr :: string
  opt_shutdownTimeout :: int
  opt_vals :: string
  opt_bootstrapNodes :: "string list"
  opt_shard :: string
  opt_disableBackfill :: bool
  opt_disableFirehose :: bool

definition readOptions :: "cli \<Rightarrow> options" where
  "readOptions cmd =
     \<lparr>opt_logFile = cli_String cmd ''log-file'',
      opt_clickhouse = cli_String cmd ''clickhouse'',
      opt_user = cli_String cmd ''clickhouse-user'',
      opt_password = cli_String cmd ''clickhouse-password'',
      opt_readonlyUser = cli_String cmd ''clickhouse-readonly-user'',
      opt_readonlyPassword = cli_String cmd ''clickhouse-readonly-password'',
      opt_backfillDB = cli_String cmd ''backfill-db'',
      opt_relay = cli_String cmd ''relay'',
      opt_parallelBackfills = cli_Int cmd ''parallel-backfills'',
      opt_parallelDownloads = cli_Int cmd ''parallel-downloads'',
      opt_metricsAddr = cli_String cmd ''metrics-addr'',
      opt_shutdownTimeout = cli_Duration cmd ''shutdown-timeout'',
      opt_vals = cli_String cmd ''vals'',
      opt_bootstrapNodes = cli_StringSlice cmd ''clickhouse-bootstrap-nodes'',
      opt_shard = cli_String cmd ''shard'',
      opt_disableBackfill = cli_Bool cmd ''disable-backfill'',
      opt_disableFirehose = cli_Bool cmd ''disable-firehose''\<rparr>"

section \<open>Lemmas\<close>

text \<open>The value of a declared flag, through the accessor of its declared type.\<close>

definition flagHas :: "cli \<Rightarrow> flag \<Rightarrow> flag_value \<Rightarrow> bool" where
  "flagHas cmd fl v =
     (case fl_Value fl of
        StringFlag _ \<Rightarrow> StringFlag (cli_String cmd (fl_Name fl)) = v
      | BoolFlag _ \<Rightarrow> BoolFlag (cli_Bool cmd (fl_Name fl)) = v
      | IntFlag _ \<Rightarrow> IntFlag (cli_Int cmd (fl_Name fl)) = v
      | DurationFlag _ \<Rightarrow> DurationFlag (cli_Duration cmd (fl_Name fl)) = v
      | StringSliceFlag _ \<Rightarrow> StringSliceFlag (cli_StringSlice cmd (fl_Name fl)) = v)"

text \<open>Documented behaviour of the package: a flag that is given nowhere has its default.\<close>

definition nothingGiven :: "cli \<Rightarrow> bool" where
  "nothingGiven cmd \<longleftrightarrow> list_all (\<lambda>fl. flagHas cmd fl (fl_Value fl)) mainFlags"

definition envChar :: "char \<Rightarrow> char" where
  "envChar c = (if c = CHR ''-'' then CHR ''_''
                else if 97 \<le> (of_char c :: nat) \<and> of_char c \<le> (122::nat) then char_of (of_char c - 32 :: nat) else c)"

lemma flags_distinct: "distinct (map fl_Name mainFlags)"
  by code_simp

lemma flag_environment:
  "list_all (\<lambda>fl. fl_Source fl = ''ATTIE_'' @ map envChar (fl_Name fl)) mainFlags"
  by code_simp

section \<open>Properties\<close>

text \<open>C35. Every option that \<^verbatim>\<open>run\<close> reads is a declared flag and is read with the accessor of its
  declared type, so nothing it reads is silently a zero value: two command lines on which the declared
  flags have the same values give the same options. The names are distinct and the environment variable
  of each is its name in capitals after \<^verbatim>\<open>ATTIE_\<close>.\<close>

theorem options_are_declared:
  assumes "\<forall>fl \<in> set mainFlags. \<exists>v. flagHas cmd fl v \<and> flagHas cmd' fl v"
  shows "readOptions cmd = readOptions cmd' \<and> distinct (map fl_Name mainFlags)
    \<and> list_all (\<lambda>fl. fl_Source fl = ''ATTIE_'' @ map envChar (fl_Name fl)) mainFlags"
proof -
  have "readOptions cmd = readOptions cmd'"
    using assms by (simp add: mainFlags_def flag_def flagHas_def readOptions_def)
  then show ?thesis using flags_distinct flag_environment by blast
qed

definition zeroCli :: cli where
  "zeroCli = \<lparr>cli_String = (\<lambda>_. []), cli_Bool = (\<lambda>_. False), cli_Int = (\<lambda>_. 0), cli_Duration = (\<lambda>_. 0),
     cli_StringSlice = (\<lambda>_. [])\<rparr>"

theorem options_are_declared_witness:
  "readOptions zeroCli = readOptions (zeroCli\<lparr>cli_String := (\<lambda>name. if name = ''verbose'' then ''yes'' else [])\<rparr>)"
proof -
  let ?cmd = "zeroCli\<lparr>cli_String := (\<lambda>name. if name = ''verbose'' then ''yes'' else [])\<rparr>"
  have "\<forall>fl \<in> set mainFlags. \<exists>v. flagHas zeroCli fl v \<and> flagHas ?cmd fl v"
    by (simp add: mainFlags_def flag_def flagHas_def zeroCli_def)
  from options_are_declared [OF this] show ?thesis by blast
qed

text \<open>The options when nothing is given.\<close>

lemma readOptions_default:
  "nothingGiven cmd \<Longrightarrow> readOptions cmd =
     \<lparr>opt_logFile = [], opt_clickhouse = ''localhost:9000'', opt_user = ''attie'', opt_password = ''attie'',
      opt_readonlyUser = ''attie-readonly'', opt_readonlyPassword = [], opt_backfillDB = ''backfill.db'',
      opt_relay = [], opt_parallelBackfills = 0, opt_parallelDownloads = 0, opt_metricsAddr = '':9090'',
      opt_shutdownTimeout = 30 * Second, opt_vals = [], opt_bootstrapNodes = [], opt_shard = [],
      opt_disableBackfill = False, opt_disableFirehose = False\<rparr>"
  by (simp add: nothingGiven_def mainFlags_def flag_def flagHas_def readOptions_def)

end
