(* ===== verification/MainRun.thy ===== *)
theory MainRun
  imports Shutdown Bootstrap CommandLine ValsStart
begin

text \<open>
  The set-up part of \<^verbatim>\<open>run\<close> (\<^verbatim>\<open>main.go\<close>): from the options to the sinks and the
  configuration of the ingester, with its errors in the order the code meets them. Whether the log file
  and the exporter open and how the vals store starts are arguments; ClickHouse and the backfill database are the
  drivers of theories Connect and Bootstrap, whose states are threaded through. The shutdown part is
  \<open>run_shutdown\<close> of theory Shutdown.
\<close>

record openings =
  op_logFile :: bool
  op_exporter :: bool
  op_valsStore :: "vals_start_error + vals_store"

datatype setup_error =
    LogFileFailed
  | ShutdownTimeoutNotPositive
  | ExporterFailed
  | ValsNodes nodes_error
  | ValsStoreFailed vals_start_error
  | ClickHouseFailed connect_error
  | ShardSpec shard_error
  | IngesterFailed

text \<open>
  The backend: the vals store alone for all roles, or the three ClickHouse sinks on one connection, after
  the bootstraps, whose failures are only logged.
\<close>

definition openClickHouse :: "'c driver \<Rightarrow> string \<Rightarrow> options \<Rightarrow> 'c \<Rightarrow> (setup_error + sink option list) \<times> 'c" where
  "openClickHouse drv schema opts c =
     (let c = snd (Bootstrap drv schema (opt_clickhouse opts) (opt_user opts) (opt_password opts)
                     (opt_bootstrapNodes opts) c);
          c = (if opt_readonlyPassword opts \<noteq> []
               then snd (BootstrapReadonlyUser drv (opt_clickhouse opts) (opt_user opts) (opt_password opts)
                           (opt_readonlyUser opts) (opt_readonlyPassword opts) c)
               else c);
          (conn, c) = ConnectClickHouse drv (opt_clickhouse opts) (opt_user opts) (opt_password opts) c
      in (case conn of Inl err \<Rightarrow> Inl (ClickHouseFailed err) | Inr _ \<Rightarrow> Inr (chooseSinks False), c))"

definition openBackend :: "'c driver \<Rightarrow> string \<Rightarrow> options \<Rightarrow> openings \<Rightarrow> 'c \<Rightarrow> (setup_error + sink option list) \<times> 'c" where
  "openBackend drv schema opts s c =
     (if opt_vals opts \<noteq> [] then
        (case parseValsNodes (opt_vals opts) of
           Inl e \<Rightarrow> Inl (ValsNodes e)
         | Inr nodes \<Rightarrow>
             (case op_valsStore s of Inl e \<Rightarrow> Inl (ValsStoreFailed e) | Inr store \<Rightarrow> Inr (chooseSinks True)), c)
      else openClickHouse drv schema opts c)"

definition ingesterConfig :: "options \<Rightarrow> int \<Rightarrow> int \<Rightarrow> config" where
  "ingesterConfig opts shardN shardK =
     \<lparr>cfg_RelayURL = opt_relay opts, cfg_ParallelBackfills = opt_parallelBackfills opts,
      cfg_ParallelDownloads = opt_parallelDownloads opts, cfg_DisableBackfill = opt_disableBackfill opts,
      cfg_DisableFirehose = opt_disableFirehose opts, cfg_ShardN = shardN, cfg_ShardK = shardK\<rparr>"

text \<open>The part after the backend, with \<^verbatim>\<open>NewIngester\<close> opening the backfill store.\<close>

definition openIngester :: "(gorm_call \<Rightarrow> 'd \<Rightarrow> bool \<times> 'd) \<Rightarrow> options \<Rightarrow> 'd \<Rightarrow> (setup_error + ingester) \<times> 'd" where
  "openIngester gorm opts d =
     (case parseShard (opt_shard opts) of
        Inl e \<Rightarrow> (Inl (ShardSpec e), d)
      | Inr (shardN, shardK) \<Rightarrow>
          (let (err, d) = NewBackfillStore gorm (opt_backfillDB opts) d
           in (case NewIngester (ingesterConfig opts shardN shardK) (err = None) of
                 None \<Rightarrow> Inl IngesterFailed
               | Some i \<Rightarrow> Inr i, d)))"

definition run_setup :: "'c driver \<Rightarrow> (gorm_call \<Rightarrow> 'd \<Rightarrow> bool \<times> 'd) \<Rightarrow> string \<Rightarrow> options \<Rightarrow> openings \<Rightarrow> 'c \<times> 'd
    \<Rightarrow> (setup_error + sink option list \<times> ingester) \<times> 'c \<times> 'd" where
  "run_setup drv gorm schema opts s w =
     (if opt_logFile opts \<noteq> [] \<and> \<not> op_logFile s then (Inl LogFileFailed, w)
      else if opt_shutdownTimeout opts \<le> 0 then (Inl ShutdownTimeoutNotPositive, w)
      else if \<not> op_exporter s then (Inl ExporterFailed, w)
      else
        (let (backend, c) = openBackend drv schema opts s (fst w) in
         case backend of
           Inl e \<Rightarrow> (Inl e, c, snd w)
         | Inr sinks \<Rightarrow>
             (let (i, d) = openIngester gorm opts (snd w)
              in (andThen i (\<lambda>i. Inr (sinks, i)), c, d))))"

section \<open>Lemmas\<close>

lemma parseShard_range: "parseShard s = Inr (n, k) \<Longrightarrow> 0 \<le> n \<and> n < k"
  using ParseInt_range
  by (fastforce simp: parseShard_def split: if_splits option.splits prod.splits)

lemma withDefaults_downloads: "cfg_ParallelDownloads (withDefaults cfg) \<le> cfg_ParallelBackfills (withDefaults cfg)"
  by (simp add: withDefaults_def Let_def)

lemma withDefaults_relay: "cfg_RelayURL (withDefaults cfg) \<noteq> []"
  by (simp add: withDefaults_def Let_def DefaultRelayURL_def)

lemma withDefaults_shard [simp]:
  "cfg_ShardN (withDefaults cfg) = cfg_ShardN cfg" "cfg_ShardK (withDefaults cfg) = cfg_ShardK cfg"
  by (simp_all add: withDefaults_def Let_def)

section \<open>Properties\<close>

lemma openIngester_Inr:
  assumes "openIngester gorm opts d = (Inr i, d')"
  obtains n k where "parseShard (opt_shard opts) = Inr (n, k)"
    "NewIngester (ingesterConfig opts n k) True = Some i"
proof -
  obtain n k where p: "parseShard (opt_shard opts) = Inr (n, k)"
    using assms by (cases "parseShard (opt_shard opts)") (auto simp: openIngester_def)
  with assms have "NewIngester (ingesterConfig opts n k) True = Some i"
    by (cases "fst (NewBackfillStore gorm (opt_backfillDB opts) d) = None")
       (auto simp: openIngester_def NewIngester_def Let_def split: prod.splits option.splits)
  with p that show thesis by blast
qed

text \<open>C32. An ingester that starts is well configured: it has a relay, never downloads more repositories at
  once than it backfills, starts at cursor zero, and its shard index is within the shard count; and it has
  one sink for all roles or three different ones.\<close>

theorem setup_well_formed:
  assumes "run_setup drv gorm schema opts s w = (Inr (sinks, i), w')"
  shows "ing_relayURL i \<noteq> [] \<and> ing_parallelDownloads i \<le> ing_parallelBackfills i \<and> ing_cursor i = 0
    \<and> 0 \<le> ing_shardN i \<and> ing_shardN i < ing_shardK i
    \<and> length (distinctSinks {} sinks) = (if opt_vals opts \<noteq> [] then 1 else 3)"
proof -
  obtain backend c where bk: "openBackend drv schema opts s (fst w) = (backend, c)" by force
  obtain ri d where oi: "openIngester gorm opts (snd w) = (ri, d)" by force
  have "backend = Inr sinks \<and> ri = Inr i"
    using assms bk oi by (cases backend; cases ri) (auto simp: run_setup_def split: if_splits)
  with bk oi have b: "openBackend drv schema opts s (fst w) = (Inr sinks, c)"
    and oi': "openIngester gorm opts (snd w) = (Inr i, d)" by simp_all
  from oi' obtain n k where p: "parseShard (opt_shard opts) = Inr (n, k)"
    and i: "NewIngester (ingesterConfig opts n k) True = Some i"
    by (rule openIngester_Inr)
  have "length (distinctSinks {} sinks) = (if opt_vals opts \<noteq> [] then 1 else 3)"
    using b by (auto simp: openBackend_def openClickHouse_def Let_def chooseSinks_def numeral_3_eq_3
        split: if_splits sum.splits prod.splits)
  moreover have "ing_shardN i = n" "ing_shardK i = k"
    using i by (auto simp: NewIngester_def ingesterConfig_def Let_def)
  moreover have "ing_relayURL i \<noteq> []" "ing_parallelDownloads i \<le> ing_parallelBackfills i" "ing_cursor i = 0"
    using i withDefaults_downloads withDefaults_relay by (auto simp: NewIngester_def Let_def)
  ultimately show ?thesis using parseShard_range [OF p] by simp
qed

text \<open>A world in which every call succeeds; ClickHouse remembers its calls.\<close>

definition healthyDriver :: "db_call list driver" where
  "healthyDriver call c = (True, c @ [call])"

definition healthyGorm :: "gorm_call \<Rightarrow> unit \<Rightarrow> bool \<times> unit" where
  "healthyGorm call d = (True, d)"

definition demoOptions :: options where
  "demoOptions =
     \<lparr>opt_logFile = [], opt_clickhouse = ''localhost:9000'', opt_user = ''attie'', opt_password = ''attie'',
      opt_readonlyUser = ''attie-readonly'', opt_readonlyPassword = [], opt_backfillDB = ''backfill.db'',
      opt_relay = [], opt_parallelBackfills = 10, opt_parallelDownloads = 0, opt_metricsAddr = '':9090'',
      opt_shutdownTimeout = 30 * Second, opt_vals = [], opt_bootstrapNodes = [], opt_shard = [],
      opt_disableBackfill = False, opt_disableFirehose = False\<rparr>"

definition allOpen :: openings where
  "allOpen = \<lparr>op_logFile = True, op_exporter = True, op_valsStore = Inr NewValsStore\<rparr>"

lemma Second_pos: "0 < 30 * Second"
  by (simp add: Second_def Millisecond_def)

lemma healthy_setup:
  assumes "opt_logFile opts = []" "opt_vals opts = []" "opt_shard opts = []" "0 < opt_shutdownTimeout opts"
  shows "\<exists>w'. run_setup healthyDriver healthyGorm schema opts allOpen w
    = (Inr (chooseSinks False, the (NewIngester (ingesterConfig opts 0 1) True)), w')"
  using assms
  by (simp add: run_setup_def allOpen_def openBackend_def openClickHouse_def openIngester_def Let_def
      ConnectClickHouse_def pinged_def healthyDriver_def healthyGorm_def parseShard_def NewBackfillStore_def
      NewIngester_def split_beta)

theorem setup_well_formed_witness:
  "\<exists>i w'. run_setup healthyDriver healthyGorm [] demoOptions allOpen ([], ()) = (Inr (chooseSinks False, i), w')
     \<and> ing_parallelDownloads i \<le> ing_parallelBackfills i"
proof -
  obtain i w' where "run_setup healthyDriver healthyGorm [] demoOptions allOpen ([], ()) = (Inr (chooseSinks False, i), w')"
    using healthy_setup [of demoOptions "[]" "([], ())"] Second_pos by (fastforce simp: demoOptions_def)
  with setup_well_formed show ?thesis by blast
qed

text \<open>C33. Started with no flag at all, the process runs the configuration that the usage texts document: the
  relay \<^verbatim>\<open>wss://bsky.network\<close>, 300 backfills with 64 downloads at a time, all repositories, firehose
  and backfill both on, on one ClickHouse connection to the default address with the default user, made
  after the bootstraps.\<close>

theorem default_setup:
  assumes "nothingGiven cmd"
  shows "\<exists>i c.
    run_setup healthyDriver healthyGorm schema (readOptions cmd) allOpen ([], ())
      = (Inr (chooseSinks False, i), c, ())
    \<and> i = \<lparr>ing_relayURL = ''wss://bsky.network'', ing_host = ''https://bsky.network'',
           ing_parallelBackfills = 300, ing_parallelDownloads = 64, ing_disableBackfill = False,
           ing_disableFirehose = False, ing_shardN = 0, ing_shardK = 1, ing_cursor = 0\<rparr>
    \<and> c = snd (Bootstrap healthyDriver schema ''localhost:9000'' ''attie'' ''attie'' [] [])
          @ [OpenConn (nativeOptions ''localhost:9000'' ''attie'' ''attie''), PingConn ''localhost:9000'']"
proof -
  note opts = readOptions_default [OF assms]
  have host: "ReplaceFirst ''wss://bsky.network'' ''wss://'' ''https://'' = ''https://bsky.network''"
    by code_simp
  show ?thesis
    using Second_pos
    by (simp add: opts run_setup_def allOpen_def openBackend_def openClickHouse_def openIngester_def Let_def
      ConnectClickHouse_def pinged_def healthyDriver_def healthyGorm_def parseShard_def NewBackfillStore_def
      NewIngester_def split_beta ingesterConfig_def withDefaults_def relayHost_def DefaultRelayURL_def host
      del: ReplaceFirst.simps)
qed

definition defaultCli :: cli where
  "defaultCli = \<lparr>cli_String = (\<lambda>name. case List.find (\<lambda>x. fl_Name x = name) mainFlags of
       Some x \<Rightarrow> (case fl_Value x of StringFlag v \<Rightarrow> v | _ \<Rightarrow> []) | None \<Rightarrow> []),
     cli_Bool = (\<lambda>_. False), cli_Int = (\<lambda>_. 0), cli_Duration = (\<lambda>_. 30 * Second), cli_StringSlice = (\<lambda>_. [])\<rparr>"

theorem default_setup_witness:
  "\<exists>i c. run_setup healthyDriver healthyGorm [] (readOptions defaultCli) allOpen ([], ()) = (Inr (chooseSinks False, i), c, ())
     \<and> ing_parallelDownloads i = 64"
proof -
  have "nothingGiven defaultCli"
    by (simp add: nothingGiven_def mainFlags_def flag_def flagHas_def defaultCli_def)
  from default_setup [OF this, of "[]"] show ?thesis by auto
qed

end
