(* ===== verification/Spec2Isabelle.thy ===== *)
theory Spec2Isabelle
  imports Prelude GoLib Shard GoFloat GoTime GoUtf8 GoJson Cbor CborSpec CborJson CborProps JsonReadback
    SelfLabels RetryPolicy Models Sinks ValsStore ValsStart ValsSystem ValsProps Partitions BatchWriter
    BacklinkWriter DeleteQueue Ingest Pump Shutdown EventStream Connect Bootstrap CommandLine MainRun
begin

text \<open>
  A verification library for \<^bold>\<open>bootes\<close>, an ingester of the AT protocol: it consumes the firehose,
  backfills existing repositories, converts every record from CBOR to JSON, extracts the references it
  contains, and stores records, backlinks and deletions either in ClickHouse or in a vals cluster.

  \<^bold>\<open>How the program works.\<close> \<^verbatim>\<open>run\<close> (\<^verbatim>\<open>main.go\<close>) opens one backend and starts an
  \<^verbatim>\<open>Ingester\<close> (\<^verbatim>\<open>ingest/ingest.go\<close>). Firehose events and backfill callbacks are admitted by
  \<^verbatim>\<open>beginWork\<close>; each record goes through \<^verbatim>\<open>FastCBORToJSON\<close> (\<^verbatim>\<open>ingest/cbor.go\<close>) to the
  sinks of \<^verbatim>\<open>ingest/store.go\<close>. Sinks buffer and write in the background: \<^verbatim>\<open>BatchWriter\<close>
  (\<^verbatim>\<open>writer.go\<close>), \<^verbatim>\<open>BacklinkWriter\<close> (\<^verbatim>\<open>backlinks.go\<close>) and \<^verbatim>\<open>DeleteQueue\<close>
  (\<^verbatim>\<open>deletes.go\<close>) for ClickHouse, \<^verbatim>\<open>ValsStore\<close> (\<^verbatim>\<open>valsstore.go\<close>) in all roles for vals.
  \<^verbatim>\<open>pumpRepos\<close> enqueues every repository of the relay that is in the shard. A shutdown stops
  admission, waits for the producers, closes every sink and saves the firehose cursor last.

  \<^bold>\<open>Theories.\<close>
  \<^item> Prelude, GoLib, GoFloat, GoTime, GoUtf8, GoJson: what the source uses of the Go language and its standard
    library: results of fallible code, \<^verbatim>\<open>int64\<close> wrap-around, slices cut in chunks, \<^verbatim>\<open>strings\<close>
    and \<^verbatim>\<open>strconv\<close>, \<^verbatim>\<open>float64\<close> rounding and shortest printing, \<^verbatim>\<open>time.Parse\<close> and the
    calendar, UTF-8, the parser of \<^verbatim>\<open>encoding/json\<close> with its nesting limit. A Go string or byte slice is a HOL string of bytes.
  \<^item> Shard: \<^verbatim>\<open>parseShard\<close>, \<^verbatim>\<open>parseValsNodes\<close>, \<^verbatim>\<open>inShard\<close> (with its panic).
  \<^item> Cbor: all of \<^verbatim>\<open>cbor.go\<close>. The recursion has one unit of fuel per nesting level;
    \<^verbatim>\<open>FastCBORToJSON\<close> starts with the length of the input plus one, which is enough because every level
    reads a header byte (\<open>enough_fuel_decode\<close> in CborSpec). CborSpec is the reference: decode to a value, render
    it, collect its references; CborJson is the JSON grammar; CborProps the properties. JsonReadback shows that
    \<^verbatim>\<open>encoding/json\<close> reads the text back as the tree of the record; SelfLabels is
    \<^verbatim>\<open>extractSelfLabels\<close>, with the way \<^verbatim>\<open>json.Unmarshal\<close> stores into its struct.
  \<^item> Models: the rows and \<^verbatim>\<open>encoding/json\<close> on them. RetryPolicy: delays and budgets of the vals retries.
  \<^item> Sinks: the interfaces as locales (\<open>accounted_sink\<close>, \<open>bounded_sink\<close>, \<open>closing_sink\<close>): no step loses track
    of an item, buffers are bounded, a closed sink holds nothing. All four sinks interpret them.
  \<^item> ValsStart: the wait of \<^verbatim>\<open>NewValsStore\<close> for its zones, which 76 pauses of 200 ms decide.
    ValsStore, ValsSystem, ValsProps: every locked section of \<^verbatim>\<open>valsstore.go\<close> as an operation; \<open>vals_step\<close>
    interleaves producers, flush loop, zone goroutines and shutdown; the invariant ties the ten counters to the
    history. The client's answers to a retry loop are a list of \<open>turn\<close>s, so a loop that is still running has
    no result; \<open>flushChunk_budget\<close> says that seven answers that are not \<^verbatim>\<open>Busy\<close> give it one.
  \<^item> Partitions: what the two ClickHouse writers share: partition buffers, \<open>writer_step\<close> (producers, flush
    loop, semaphore, inserts, close), the locale \<open>partition_writer\<close> of their operations, bounded retries.
    BatchWriter and BacklinkWriter model the operations and interpret the locale. The iteration order of a Go
    map is an argument, constrained only to list the keys.
    \<open>writer_step\<close> assumes of its environment what \<^verbatim>\<open>CloseContext\<close> guarantees: a writer is closed
    after the producers have returned from it, and not written to afterwards.
  \<^item> DeleteQueue: buffer and flush of deletions; the cleanup job and its loop. Its two \<^verbatim>\<open>ALTER\<close> statements
    register mutations, which the cluster applies later (\<open>table_action\<close>): in order within a table, in any order
    between tables. The locale \<open>table_relation\<close> carries a relation between two states of the tables through the
    loop; it is interpreted for the rows nobody asked to delete and for the columns the cleanup does not read.
  \<^item> Ingest: configuration, firehose and backfill callbacks as functions to the list of sink calls.
    Pump: the repo pump, with what the job store answers to every call. Shutdown: admission, cursor, \<^verbatim>\<open>CloseContext\<close>, and the shutdown of \<^verbatim>\<open>run\<close>.
    EventStream: the orders in which the scheduler may run the firehose callbacks while admission stops.
  \<^item> CommandLine: the flags of \<^verbatim>\<open>main\<close> and what \<^verbatim>\<open>run\<close> reads of them. Connect: \<^verbatim>\<open>connect.go\<close>,
    with the calls to the driver. Bootstrap: \<^verbatim>\<open>bootstrap.go\<close> and \<^verbatim>\<open>bfstore.go\<close>. MainRun: the
    set-up of \<^verbatim>\<open>run\<close>, from the flags to the sinks and the ingester.
  \<^item> This theory: properties that span components.

  \<^bold>\<open>What the properties show.\<close> The converter is a faithful single pass and emits JSON for any input; the
  sinks neither lose, duplicate nor reorder what they admit, within their bounds, and their close is complete;
  a chunk is dropped for exactly two reasons; a delete finds its record's key; the pump hands every repository of the
  shard to the job store, and shards split the network; and the cursor is saved last, so that with the vals backend it never runs ahead of what
  the store admitted. Several properties pin down what the code does where this is not what it means to do: they are the
  findings of the manifest.

  \<^bold>\<open>Parameters.\<close> Code that is not in the repository is an argument: the CBOR header reader, the CID and TID
  parsers (\<open>cbor_lib\<close>, with the hypotheses \<open>headerProgress\<close> and \<open>wfLib\<close>, instantiated by \<open>rfcLib\<close>), the vals
  client, the ClickHouse driver, the relay, the repo reader, the job store, the event scheduler,
  \<^verbatim>\<open>gorm\<close> and the command line package.
  Clocks, random jitter and \<^verbatim>\<open>select\<close> choices are arguments too.

  \<^bold>\<open>Not modelled.\<close> Logging and metrics (\<^verbatim>\<open>metrics.go\<close>, the metrics server); the websocket; the
  interfaces of \<^verbatim>\<open>store.go\<close> (their contract is theory Sinks); tests. They decide nothing the modelled code
  depends on, or are calls of third-party code.
\<close>

section \<open>Shutdown of the whole system\<close>

text \<open>What closing the vals store answers to \<^verbatim>\<open>Ingester.CloseContext\<close>, for all of its roles.\<close>

definition valsClose :: "bool \<Rightarrow> vals_sys \<Rightarrow> nat \<Rightarrow> string option" where
  "valsClose expired s k =
     (case closeVerdict expired (Stats (store s)) of
        None \<Rightarrow> None
      | Some (DrainIncomplete remaining lost late) \<Rightarrow>
          Some (''vals drain incomplete: remaining='' @ FormatUint (unat remaining) @ '' lost='' @ FormatUint (unat lost)))"

lemma valsClose_nil: "valsClose expired s k = None \<longleftrightarrow> closeVerdict expired (Stats (store s)) = None"
  by (auto simp: valsClose_def split: option.splits close_error.splits)

lemma vals_distinct: "distinctSinks {} (chooseSinks True) =
    [\<lparr>sk_id = 0, sk_notifier = True, sk_reporter = True, sk_contextCloser = True\<rparr>]"
  by (simp add: chooseSinks_def numeral_3_eq_3)

text \<open>C1. With the vals backend the firehose cursor is never saved ahead of what the store admitted: if a
  shutdown saves the cursor, then the store has persisted everything it ever admitted, in order, and rejected nothing.\<close>

theorem cursor_never_ahead_of_vals:
  assumes "vals_step\<^sup>*\<^sup>* initialSys s" "expired \<or> flusher s = Exited"
    and "length (admitted s Records) + length (admitted s Backlinks)
       + length (rejected s Records) + length (rejected s Backlinks) < 2 ^ 64"
    and "ing_CloseContext (e\<lparr>ce_close := valsClose expired s\<rparr>) disableBackfill (chooseSinks True) cursor = (acts, failure)"
    and "ActSaveCursor c \<in> set acts"
  shows "c = cursor \<and> (\<forall>z. persistedLog s z = admitted s z \<and> rejected s z = [])"
proof -
  note saved = close_saves_cursor [OF assms(4,5)]
  then have "closeVerdict expired (Stats (store s)) = None"
    by (simp add: vals_distinct valsClose_nil)
  then show ?thesis using saved clean_close_persisted [OF assms(1-3)] by blast
qed

definition valsEnd :: vals_sys where
  "valsEnd = initialSys\<lparr>store := markClosed (BeginShutdown NewValsStore), flusher := Exited\<rparr>"

lemma valsEnd_reachable: "vals_step\<^sup>*\<^sup>* initialSys valsEnd"
proof -
  let ?a = "initialSys\<lparr>store := markClosed (BeginShutdown (store initialSys))\<rparr>"
  let ?b = "beginFlush True ?a"
  have 1: "vals_step initialSys ?a" by (rule vals_step.Close)
  have 2: "vals_step ?a ?b"
    by (rule vals_step.Done)
       (simp_all add: initialSys_def markClosed_def BeginShutdown_def NewValsStore_def)
  have p: "pending ?b = (\<lambda>_. [])" "flusher ?b = Draining True"
    by (auto simp: beginFlush_def flushTake_def initialSys_def markClosed_def BeginShutdown_def
        NewValsStore_def split: zone.splits)
  have 3: "vals_step ?b (?b\<lparr>flusher := (if True then Exited else Idle)\<rparr>)"
    by (rule Flushed [of _ True]) (simp_all add: p)
  have e: "?b\<lparr>flusher := Exited\<rparr> = valsEnd"
    using p by (simp add: beginFlush_def flushTake_def initialSys_def valsEnd_def markClosed_def
        BeginShutdown_def NewValsStore_def)
  show ?thesis
    using 1 2 3 unfolding if_True e by (meson converse_rtranclp_into_rtranclp rtranclp.rtrancl_refl)
qed

lemma valsEnd_close:
  "ing_CloseContext (healthyEnv\<lparr>ce_close := valsClose False valsEnd\<rparr>) False (chooseSinks True) 42 =
     ([CloseCursorDone, ActStopAdmission, Notify 0, StopBackfiller, WaitForActiveWork, CloseSink 0, ActSaveCursor 42], None)"
proof -
  have "valsClose False valsEnd k = None" for k
    by (simp add: valsClose_nil closeVerdict_def Stats_def valsEnd_def initialSys_def markClosed_def
        BeginShutdown_def NewValsStore_def)
  then show ?thesis
    by (simp add: ing_CloseContext_def healthyEnv_def vals_distinct ing_BeginShutdown_def finishClose_def
        drainSinks_def saveCursor_def)
qed

theorem cursor_never_ahead_of_vals_witness:
  "persistedLog valsEnd Records = admitted valsEnd Records"
  using cursor_never_ahead_of_vals [OF valsEnd_reachable, of False healthyEnv False 42 _ _ 42]
    valsEnd_close
  by (simp add: valsEnd_def initialSys_def)

text \<open>A record writer that lost its only batch, after twelve failed attempts, and has closed.\<close>

definition lostWriter :: "grecord writer_sys" where
  "lostWriter = initialWriter\<lparr>ws_parts := fst (bw_FlushAll [202311] demoParts), ws_admitted := [demoRecord],
     ws_taken := [[demoRecord]], ws_done := True, ws_loop := Stopped, ws_settled := [([demoRecord], False)]\<rparr>"

lemma lostWriter_reachable: "(writer_step bw_ops)\<^sup>*\<^sup>* initialWriter lostWriter"
proof -
  have "(writer_step bw_ops)\<^sup>*\<^sup>* demoWriter lostWriter"
    unfolding demoWriter_def lostWriter_def
  proof (rule close_run [of "[202311]"])
    show "op_all bw_ops [202311] demoParts = (fst (bw_FlushAll [202311] demoParts), [[demoRecord]])"
      by (simp add: bw_ops_def demoParts_def)
    show "op_insert bw_ops (replicate 12 False) = Some False"
      using retryLoop_result [of 12 bw_delay 0 "replicate 12 False"]
      by (simp add: bw_ops_def bw_insertRecords_def)
  qed (simp_all add: demoParts_def bw_ops_def)
  with demoWriter_reachable show ?thesis by (rule rtranclp_trans)
qed

text \<open>C19. With the ClickHouse backend it can: the record writer's \<^verbatim>\<open>Close\<close> reports no error after it
  lost a batch, so a shutdown that lost an admitted record saves the cursor and succeeds.\<close>

theorem clickhouse_cursor_ahead:
  "\<exists>s. (writer_step bw_ops)\<^sup>*\<^sup>* initialWriter s \<and> writer_Close s = Some None
     \<and> ([demoRecord], False) \<in> set (ws_settled s)
     \<and> ing_CloseContext (healthyEnv\<lparr>ce_close := (\<lambda>k. if k = 0 then the (writer_Close s) else None)\<rparr>)
          False (chooseSinks False) 42 =
        ([CloseCursorDone, ActStopAdmission, StopBackfiller, WaitForActiveWork,
          CloseSink 0, CloseSink 1, CloseSink 2, ActSaveCursor 42], None)"
proof -
  have c: "writer_Close lostWriter = Some None"
    by (simp add: writer_Close_def writerClosed_def lostWriter_def initialWriter_def)
  have l: "([demoRecord], False) \<in> set (ws_settled lostWriter)" by (simp add: lostWriter_def)
  show ?thesis
    by (intro exI [of _ lostWriter] conjI lostWriter_reachable c l)
       (simp add: c ing_CloseContext_def healthyEnv_def chooseSinks_def ing_BeginShutdown_def
         finishClose_def drainSinks_def saveCursor_def)
qed

section \<open>Records and their deletion\<close>

text \<open>C11. From the firehose to the vals cluster, a deletion finds its record: the key a create or an update
  of a path is stored under is the key that a delete of the same path removes, whatever the path.\<close>

theorem delete_finds_record:
  assumes "CHR ''/'' \<notin> set (cm_Repo c)"
    and "CallWriteRecord r \<in> set (handleOp e clk backfilling rr c op)"
    and "ro_Path del = ro_Path op" "ro_Action del = ''delete''"
    and "CallQueueRecordDelete uri \<in> set (handleOp e clk' backfilling' rr' c del)"
  shows "uri = rec_URI r \<and> uriToRecordKey uri = Some (recordKey (rec_Collection r) (rec_DID r) (rec_Rkey r))"
proof -
  let ?parts = "SplitN (ro_Path op) CHR ''/'' 2"
  have two: "length ?parts = 2"
    using assms(2) by (auto simp: handleOp_def Let_def split: if_splits)
  have r: "rec_URI r = recordURI (cm_Repo c) (ro_Path op)" "rec_DID r = cm_Repo c"
      "rec_Collection r = ?parts ! 0" "rec_Rkey r = ?parts ! 1"
    using assms(2)
    by (auto simp: handleOp_def processRawRecord_def writeBacklinks_def queueDeletes_def Let_def
        split: if_splits option.splits)
  have uri: "uri = recordURI (cm_Repo c) (ro_Path op)"
    using assms(3-5) op_uri [OF two, of "cm_Repo c"]
    by (auto simp: handleOp_def queueDeletes_def Let_def split: if_splits)
  have join: "ro_Path op = ?parts ! 0 @ ''/'' @ ?parts ! 1" "CHR ''/'' \<notin> set (?parts ! 0)"
    using SplitN2_join [OF two] by blast+
  have "uri = ''at://'' @ cm_Repo c @ ''/'' @ ?parts ! 0 @ ''/'' @ ?parts ! 1"
    using op_uri [OF two, of "cm_Repo c"] uri by simp
  then have "uriToRecordKey uri = Some (recordKey (?parts ! 0) (cm_Repo c) (?parts ! 1))"
    using uriToRecordKey_uri [OF assms(1) join(2)] by simp
  then show ?thesis by (simp add: r uri)
qed

theorem delete_finds_record_witness:
  "\<exists>r. CallWriteRecord r \<in> set (handleOp demoEnv (epoch, epoch) False (Some (\<lambda>_. Some [CHR 0xA0])) demoCommit
        \<lparr>ro_Action = ''create'', ro_Path = ''c/r'', ro_hasCid = True\<rparr>)
     \<and> uriToRecordKey ''at://did:plc:a/c/r'' = Some (recordKey (rec_Collection r) (rec_DID r) (rec_Rkey r))"
proof -
  let ?op = "\<lparr>ro_Action = ''create'', ro_Path = ''c/r'', ro_hasCid = True\<rparr>"
  let ?del = "\<lparr>ro_Action = ''delete'', ro_Path = ''c/r'', ro_hasCid = False\<rparr>"
  let ?calls = "handleOp demoEnv (epoch, epoch) False (Some (\<lambda>_. Some [CHR 0xA0])) demoCommit ?op"
  obtain r where r: "CallWriteRecord r \<in> set ?calls"
    by (auto simp: handleOp_def demoCommit_def SplitN2_cases processRawRecord_def Let_def)
  have d: "CallQueueRecordDelete ''at://did:plc:a/c/r'' \<in> set (handleOp demoEnv (epoch, epoch) False None demoCommit ?del)"
    by (simp add: handleOp_def demoCommit_def SplitN2_cases queueDeletes_def demoEnv_def Let_def)
  have "CHR ''/'' \<notin> set (cm_Repo demoCommit)" by (simp add: demoCommit_def)
  from delete_finds_record [OF this r _ _ d] r show ?thesis by auto
qed

section \<open>The sharded pump\<close>

text \<open>C15. Instances that split the network miss nothing and share nothing: if each of the \<open>K\<close> shards
  completes its pump, every DID the relay serves has been handed to \<^verbatim>\<open>EnqueueJob\<close> by exactly one
  of them, where it has a job unless that call failed; the other shards never touched it.\<close>

theorem shards_cover_network:
  assumes "1 \<le> K" "K < 2 ^ 32" "served listing [] dids" "did \<in> set dids"
    and "\<And>n. 0 \<le> n \<Longrightarrow> n < K \<Longrightarrow> follows listing [] (rounds n)"
    and "\<And>n. 0 \<le> n \<Longrightarrow> n < K \<Longrightarrow>
      pumpRepos (inShard n K) (Some \<lparr>pp_Cursor = [], pp_TotalPumped = 0, pp_Completed = False\<rparr>) True (rounds n)
        = Some (calls n, db n, PumpCompleted)"
  shows "\<exists>n. 0 \<le> n \<and> n < K \<and> did \<in> set (withJob (calls n)) \<union> set (withoutJob (calls n))
    \<and> (\<forall>m answer. 0 \<le> m \<and> m < K \<and> m \<noteq> n \<longrightarrow> (did, answer) \<notin> set (calls m))"
proof -
  let ?start = "\<lparr>pp_Cursor = [], pp_TotalPumped = 0, pp_Completed = False\<rparr>"
  have "map fst (calls n) = mine (inShard n K) dids" if "0 \<le> n" "n < K" for n
    by (rule pump_completed [of "inShard n K" listing ?start dids "rounds n" True "calls n" "db n"])
       (use inShard_total [OF assms(1,2)] assms(3) assms(5,6) that in simp_all)
  then have handed: "did \<in> set (map fst (calls n)) \<longleftrightarrow> inShard n K did = Inr True" if "0 \<le> n" "n < K" for n
    using assms(4) that by (simp add: mine_def)
  obtain n where n: "0 \<le> n" "n < K" "inShard n K did = Inr True"
    "\<And>m. 0 \<le> m \<and> m < K \<and> inShard m K did = Inr True \<Longrightarrow> m = n"
    using inShard_exactly_one [OF assms(1,2), of did] by blast
  have "(did, answer) \<notin> set (calls m)" if "0 \<le> m" "m < K" "m \<noteq> n" for m answer
    using handed [OF that(1,2)] n(4) [of m] that by force
  then show ?thesis using n(1,2) handed [OF n(1,2)] n(3) jobs_split [of "calls n"] by blast
qed

lemma demo_shards:
  "inShard 0 2 ''did:plc:a'' = Inr True" "inShard 1 2 ''did:plc:a'' = Inr False"
  "inShard 0 2 ''did:plc:b'' = Inr False" "inShard 1 2 ''did:plc:b'' = Inr True"
  by (simp_all add: inShard_def Fnv32a_def)

theorem shards_cover_network_witness:
  "\<exists>n. 0 \<le> n \<and> n < (2 :: int)
    \<and> ''did:plc:b'' \<in> set (withJob ([[(''did:plc:a'', Enqueued)], [(''did:plc:b'', Enqueued)]] ! nat n))
        \<union> set (withoutJob ([[(''did:plc:a'', Enqueued)], [(''did:plc:b'', Enqueued)]] ! nat n))
    \<and> (\<forall>m answer. 0 \<le> m \<and> m < 2 \<and> m \<noteq> n \<longrightarrow>
         (''did:plc:b'', answer) \<notin> set ([[(''did:plc:a'', Enqueued)], [(''did:plc:b'', Enqueued)]] ! nat m))"
proof (rule shards_cover_network [of 2 demoListing "[''did:plc:a'', ''did:plc:b'']" "''did:plc:b''"
      "\<lambda>_. [Page [(''did:plc:a'', Enqueued)] (Some ''p2'') False True, Page [(''did:plc:b'', Enqueued)] None False True]"
      "\<lambda>n. [[(''did:plc:a'', Enqueued)], [(''did:plc:b'', Enqueued)]] ! nat n"
      "\<lambda>_. \<lparr>pp_Cursor = ''p2'', pp_TotalPumped = 1, pp_Completed = True\<rparr>"])
  show "served demoListing [] [''did:plc:a'', ''did:plc:b'']" by (rule demo_served)
next
  fix n :: int assume "0 \<le> n" "n < 2"
  then have "n = 0 \<or> n = 1" by auto
  then show "pumpRepos (inShard n 2) (Some \<lparr>pp_Cursor = [], pp_TotalPumped = 0, pp_Completed = False\<rparr>) True
      [Page [(''did:plc:a'', Enqueued)] (Some ''p2'') False True, Page [(''did:plc:b'', Enqueued)] None False True]
    = Some ([[(''did:plc:a'', Enqueued)], [(''did:plc:b'', Enqueued)]] ! nat n,
        \<lparr>pp_Cursor = ''p2'', pp_TotalPumped = 1, pp_Completed = True\<rparr>, PumpCompleted)"
    by (auto simp: pumpRepos_def saveProgress_def demo_shards)
qed (simp_all add: demoListing_def)

end
